theory Spec2Isabelle
  imports Main "HOL-Library.Word"
begin

section \<open>The page interaction controller of \<^verbatim>\<open>public/scripts/main.js\<close>\<close>

text \<open>
  The script is one closure over a mutable element cache, an initialisation flag and
  the browser's document, storage and timers. The embedding below keeps all of that
  in one record \<open>page\<close>; every function of the script becomes a function on that
  record, a thrown exception becomes the completion \<open>Threw\<close>, and the points at which
  the browser calls back into the script (events, timers, the answer of the relay)
  become the constructors of \<open>event\<close>.
\<close>

subsection \<open>Strings\<close>

text \<open>
  A JavaScript string is a sequence of UTF-16 code units; \<^verbatim>\<open>trim\<close> and the class
  \<^verbatim>\<open>\s\<close> of a regular expression without the \<^verbatim>\<open>u\<close> flag are defined on code units.
  String literals of the script are written \<open>str ''...''\<close>.
\<close>

type_synonym jschar = "16 word"
type_synonym jsstring = "jschar list"

definition str :: "string \<Rightarrow> jsstring" where
  "str s = map (\<lambda>c. of_nat (of_char c)) s"

text \<open>
  ECMAScript \<^verbatim>\<open>WhiteSpace\<close> and \<^verbatim>\<open>LineTerminator\<close>: TAB, LF, VT, FF, CR, SP, NBSP,
  the space separators U+1680, U+2000 to U+200A, U+202F, U+205F, U+3000, the line and
  paragraph separators U+2028 and U+2029, and the byte order mark U+FEFF. It is the
  set that \<^verbatim>\<open>String.prototype.trim\<close> strips and that \<^verbatim>\<open>\s\<close> matches.
\<close>

definition isWhiteSpace :: "jschar \<Rightarrow> bool" where
  "isWhiteSpace c \<longleftrightarrow>
     c \<in> set [0x09, 0x0A, 0x0B, 0x0C, 0x0D, 0x20, 0xA0, 0x1680,
               0x2028, 0x2029, 0x202F, 0x205F, 0x3000, 0xFEFF]
     \<or> (0x2000 \<le> c \<and> c \<le> 0x200A)"

definition trim :: "jsstring \<Rightarrow> jsstring" where
  "trim s = rev (dropWhile isWhiteSpace (rev (dropWhile isWhiteSpace s)))"

subsection \<open>The regular expression of \<^verbatim>\<open>isValidEmail\<close>\<close>

text \<open>
  The pattern \<^verbatim>\<open>/^[^\s@]+@[^\s@]+\.[^\s@]+$/\<close> is a sequence of pieces, each a single
  atom or an atom under \<^verbatim>\<open>+\<close>, anchored at both ends. \<open>rx_test\<close> is the backtracking
  search of \<^verbatim>\<open>RegExp.prototype.test\<close> for such a pattern: it answers whether some
  way of splitting the subject among the pieces exists.
\<close>

datatype class_item = CharItem jschar | SpaceItem

datatype atom = Lit jschar | NegClass "class_item list"

datatype piece = One atom | Plus atom

fun in_item :: "class_item \<Rightarrow> jschar \<Rightarrow> bool" where
  "in_item (CharItem d) c = (c = d)"
| "in_item SpaceItem c = isWhiteSpace c"

fun atom_matches :: "atom \<Rightarrow> jschar \<Rightarrow> bool" where
  "atom_matches (Lit d) c = (c = d)"
| "atom_matches (NegClass items) c = (\<not> list_ex (\<lambda>i. in_item i c) items)"

fun rx_test :: "piece list \<Rightarrow> jsstring \<Rightarrow> bool" where
  "rx_test [] s = (s = [])"
| "rx_test (One a # ps) [] = False"
| "rx_test (One a # ps) (c # cs) = (atom_matches a c \<and> rx_test ps cs)"
| "rx_test (Plus a # ps) [] = False"
| "rx_test (Plus a # ps) (c # cs) =
     (atom_matches a c \<and> (rx_test ps cs \<or> rx_test (Plus a # ps) cs))"

definition notSpaceOrAt :: atom where
  "notSpaceOrAt = NegClass [SpaceItem, CharItem 0x40]"

definition emailPattern :: "piece list" where
  "emailPattern =
     [Plus notSpaceOrAt, One (Lit 0x40), Plus notSpaceOrAt, One (Lit 0x2E), Plus notSpaceOrAt]"

definition isValidEmail :: "jsstring \<Rightarrow> bool" where
  "isValidEmail email = rx_test emailPattern email"

text \<open>
  The shape in the words of the specification: a non-empty local part, \<^verbatim>\<open>@\<close>, a
  non-empty domain, \<^verbatim>\<open>.\<close>, a non-empty top-level part, and neither white space nor
  a further \<^verbatim>\<open>@\<close> in any of the three parts.
\<close>

definition plainChar :: "jschar \<Rightarrow> bool" where
  "plainChar c \<longleftrightarrow> \<not> isWhiteSpace c \<and> c \<noteq> 0x40"

definition email_shape :: "jsstring \<Rightarrow> bool" where
  "email_shape s \<longleftrightarrow>
     (\<exists>l d t. s = l @ [0x40] @ d @ [0x2E] @ t \<and> l \<noteq> [] \<and> d \<noteq> [] \<and> t \<noteq> [] \<and>
        list_all plainChar l \<and> list_all plainChar d \<and> list_all plainChar t)"

subsection \<open>Form controls and their validation\<close>

text \<open>
  A control of the contact form. \<open>errorEls\<close> is the text of the elements of class
  \<^verbatim>\<open>error-message\<close> below the control's parent node, in document order: it is what
  \<^verbatim>\<open>input.parentNode.querySelector('.error-message')\<close> searches, and the first entry is
  the element it returns. Each control is modelled with a parent of its own, as in a
  form that wraps every field in its own group. \<open>defaultValue\<close> is the value that
  \<^verbatim>\<open>form.reset()\<close> restores.
\<close>

record control =
  tagName :: jsstring
  type :: jsstring
  "value" :: jsstring
  defaultValue :: jsstring
  required :: bool
  borderColor :: jsstring
  errorEls :: "jsstring list"

definition clearValidationError :: "control \<Rightarrow> control" where
  "clearValidationError input =
     input\<lparr>borderColor := [],
           errorEls := (case errorEls input of [] \<Rightarrow> [] | errorEl # rest \<Rightarrow> rest)\<rparr>"

definition showValidationError :: "control \<Rightarrow> jsstring \<Rightarrow> control" where
  "showValidationError input message =
     input\<lparr>borderColor := str ''#dc3545'',
           errorEls := (case errorEls input of [] \<Rightarrow> [message] | errorEl # rest \<Rightarrow> message # rest)\<rparr>"

definition requiredMessage :: jsstring where
  "requiredMessage = str ''This field is required''"

definition emailMessage :: jsstring where
  "emailMessage = str ''Please enter a valid email address''"

text \<open>\<^verbatim>\<open>validateInput\<close> returns \<^verbatim>\<open>isValid\<close>; the control is returned as it has become.\<close>

definition validateInput :: "control \<Rightarrow> bool \<times> control" where
  "validateInput input =
     (let v = trim (value input);
          input1 = clearValidationError input;
          (isValid, errorMessage) =
             (if required input \<and> v = [] then (False, requiredMessage)
              else if type input = str ''email'' \<and> v \<noteq> [] \<and> \<not> isValidEmail v
                   then (False, emailMessage)
              else (True, []))
      in (isValid, if \<not> isValid then showValidationError input1 errorMessage else input1))"

subsection \<open>The document, the browser and the closure variables\<close>

record button =
  textContent :: jsstring
  disabled :: bool

text \<open>
  The contact form: its controls in document order, and the element that
  \<^verbatim>\<open>contactForm.querySelector('.btn-submit')\<close> returns, if any.
\<close>

record form =
  controls :: "control list"
  submitBtn :: "button option"

record header_el =
  headerClasses :: "jsstring list"
  offsetHeight :: int

record loading_el =
  loadingClasses :: "jsstring list"
  display :: jsstring

text \<open>An element matched by \<^verbatim>\<open>.service-card, .work-item, .process-step\<close>.\<close>

record fade_el =
  opacity :: jsstring
  fadeTransform :: jsstring
  transition :: jsstring
  observed :: bool

text \<open>
  A banner created by \<^verbatim>\<open>showNotification\<close>. \<open>nid\<close> is the identity of the element
  object, which the timers of the banner hold on to.
\<close>

record notification =
  nid :: nat
  className :: jsstring
  message :: jsstring
  background :: jsstring
  transform :: jsstring

datatype query_result = InvalidSelector | NoMatch | Match int

datatype error = TypeError | SyntaxError | ReferenceError | NetworkFailure | SubmitError

datatype completion = Returned | Threw error | Suspended

text \<open>Callbacks handed to \<^verbatim>\<open>setTimeout\<close> and \<^verbatim>\<open>requestAnimationFrame\<close>.\<close>

datatype task =
    AnimateIn nat | SlideOut nat | RemoveNotification nat
  | HideLoading | DisplayNone | UpdateHeader

datatype listener =
    NavToggleClick | NavLinkClick nat | WindowScroll | ThemeToggleClick
  | FormSubmit | ControlBlur nat | ControlInput nat

text \<open>
  The page. \<open>isInitialized\<close> and \<open>ticking\<close> are the closure variables of the script;
  \<open>cached\<close> says that \<^verbatim>\<open>cacheElements\<close> has filled the object \<^verbatim>\<open>elements\<close>, whose
  entries are references to the elements of the document and are undefined before.
  \<open>notifications\<close> lists the elements of class \<^verbatim>\<open>notification\<close> in document order.
  \<open>querySelector\<close> is \<^verbatim>\<open>document.querySelector\<close> on the \<^verbatim>\<open>href\<close> of a navigation link,
  with the \<^verbatim>\<open>offsetTop\<close> of the element found. \<open>matchMedia\<close> is \<open>None\<close> in a browser
  without \<^verbatim>\<open>window.matchMedia\<close>, and \<open>intersectionObserver\<close> says whether the global
  \<^verbatim>\<open>IntersectionObserver\<close> is defined. \<open>storageWrites\<close> records every call of
  \<^verbatim>\<open>localStorage.setItem\<close>. \<open>timers\<close> are the callbacks scheduled and not yet run, and
  \<open>pending\<close> holds \<^verbatim>\<open>originalText\<close> of every call of \<^verbatim>\<open>handleFormSubmit\<close> that is
  waiting for the relay. The timing marks and the diagnostic output for the host
  \<^verbatim>\<open>localhost\<close> are left out.
\<close>

record page =
  isInitialized :: bool
  cached :: bool
  ticking :: bool
  loading :: "loading_el option"
  header :: "header_el option"
  navToggle :: "jsstring list option"
  navMenu :: "jsstring list option"
  navLinks :: "jsstring option list"
  themeToggle :: bool
  contactForm :: "form option"
  animateElements :: "fade_el list"
  dataTheme :: "jsstring option"
  bodyOverflow :: jsstring
  notifications :: "notification list"
  nextId :: nat
  querySelector :: "jsstring \<Rightarrow> query_result"
  scrollTo :: "int option"
  pageYOffset :: int
  localStorage :: "jsstring \<rightharpoonup> jsstring"
  storageWrites :: "(jsstring \<times> jsstring) list"
  matchMedia :: "(jsstring \<Rightarrow> bool) option"
  intersectionObserver :: bool
  listeners :: "listener list"
  timers :: "task list"
  pending :: "jsstring list"

text \<open>The entries of \<^verbatim>\<open>elements\<close> as the script reads them.\<close>

definition el_loading :: "page \<Rightarrow> loading_el option" where
  "el_loading p = (if cached p then loading p else None)"

definition el_header :: "page \<Rightarrow> header_el option" where
  "el_header p = (if cached p then header p else None)"

definition el_navToggle :: "page \<Rightarrow> jsstring list option" where
  "el_navToggle p = (if cached p then navToggle p else None)"

definition el_navMenu :: "page \<Rightarrow> jsstring list option" where
  "el_navMenu p = (if cached p then navMenu p else None)"

definition el_contactForm :: "page \<Rightarrow> form option" where
  "el_contactForm p = (if cached p then contactForm p else None)"

definition el_themeToggle :: "page \<Rightarrow> bool" where
  "el_themeToggle p \<longleftrightarrow> cached p \<and> themeToggle p"

definition cacheElements :: "page \<Rightarrow> page" where
  "cacheElements p = p\<lparr>cached := True\<rparr>"

definition addListener :: "listener \<Rightarrow> page \<Rightarrow> page" where
  "addListener l p = (if l \<in> set (listeners p) then p else p\<lparr>listeners := listeners p @ [l]\<rparr>)"

definition andThen ::
  "completion \<times> page \<Rightarrow> (page \<Rightarrow> completion \<times> page) \<Rightarrow> completion \<times> page" where
  "andThen r f = (case r of (Returned, p) \<Rightarrow> f p | (c, p) \<Rightarrow> (c, p))"

subsection \<open>Class lists\<close>

definition classList_toggle :: "jsstring \<Rightarrow> jsstring list \<Rightarrow> jsstring list" where
  "classList_toggle tok cl = (if tok \<in> set cl then removeAll tok cl else cl @ [tok])"

definition classList_add :: "jsstring \<Rightarrow> jsstring list \<Rightarrow> jsstring list" where
  "classList_add tok cl = (if tok \<in> set cl then cl else cl @ [tok])"

definition classList_force :: "jsstring \<Rightarrow> bool \<Rightarrow> jsstring list \<Rightarrow> jsstring list" where
  "classList_force tok force cl = (if force then classList_add tok cl else removeAll tok cl)"

subsection \<open>Navigation\<close>

definition menuActive :: "page \<Rightarrow> bool" where
  "menuActive p = (case el_navMenu p of None \<Rightarrow> False | Some menu \<Rightarrow> str ''active'' \<in> set menu)"

text \<open>
  \<^verbatim>\<open>toggleMobileMenu\<close> tests \<^verbatim>\<open>elements.navMenu\<close> only; with a menu and without the
  toggle control the second statement throws after the first has taken effect.
\<close>

definition toggleMobileMenu :: "page \<Rightarrow> completion \<times> page" where
  "toggleMobileMenu p =
     (case el_navMenu p of
        None \<Rightarrow> (Returned, p)
      | Some menu \<Rightarrow>
          let p1 = p\<lparr>navMenu := Some (classList_toggle (str ''active'') menu)\<rparr>
          in (case el_navToggle p1 of
                None \<Rightarrow> (Threw TypeError, p1)
              | Some toggle \<Rightarrow>
                  let p2 = p1\<lparr>navToggle := Some (classList_toggle (str ''active'') toggle)\<rparr>
                  in (Returned,
                      p2\<lparr>bodyOverflow := (if menuActive p2 then str ''hidden'' else [])\<rparr>)))"

definition handleSmoothScroll :: "jsstring \<Rightarrow> page \<Rightarrow> completion \<times> page" where
  "handleSmoothScroll targetId p =
     (case querySelector p targetId of
        InvalidSelector \<Rightarrow> (Threw SyntaxError, p)
      | NoMatch \<Rightarrow> (Returned, p)
      | Match offsetTop \<Rightarrow>
          let headerHeight = (case el_header p of Some h \<Rightarrow> offsetHeight h | None \<Rightarrow> 80);
              targetPosition = offsetTop - headerHeight;
              p1 = p\<lparr>scrollTo := Some targetPosition\<rparr>
          in if menuActive p1 then toggleMobileMenu p1 else (Returned, p1))"

definition updateHeaderOnScroll :: "page \<Rightarrow> page" where
  "updateHeaderOnScroll p =
     (case el_header p of
        None \<Rightarrow> p
      | Some h \<Rightarrow>
          let scrolled = (pageYOffset p > 10)
          in p\<lparr>header := Some (h\<lparr>headerClasses :=
                 classList_force (str ''scrolled'') scrolled (headerClasses h)\<rparr>)\<rparr>)"

definition startsWith :: "jsstring \<Rightarrow> jsstring \<Rightarrow> bool" where
  "startsWith s prefix \<longleftrightarrow> take (length prefix) s = prefix"

text \<open>
  The loop over \<^verbatim>\<open>elements.navLinks\<close>: \<^verbatim>\<open>link.getAttribute('href')\<close> is \<^verbatim>\<open>null\<close> for a
  link without the attribute, and \<^verbatim>\<open>null.startsWith\<close> throws.
\<close>

fun linkLoop :: "nat \<Rightarrow> jsstring option list \<Rightarrow> page \<Rightarrow> completion \<times> page" where
  "linkLoop i [] p = (Returned, p)"
| "linkLoop i (None # links) p = (Threw TypeError, p)"
| "linkLoop i (Some href # links) p =
     linkLoop (Suc i) links
       (if startsWith href (str ''#'') then addListener (NavLinkClick i) p else p)"

definition setupNavigation :: "page \<Rightarrow> completion \<times> page" where
  "setupNavigation p =
     (let p1 = (if el_navToggle p \<noteq> None \<and> el_navMenu p \<noteq> None
                then addListener NavToggleClick p else p)
      in andThen (linkLoop 0 (navLinks p1) p1)
           (\<lambda>p2. (Returned,
                   if el_header p2 \<noteq> None
                   then addListener WindowScroll (p2\<lparr>ticking := False\<rparr>) else p2)))"

subsection \<open>Theme\<close>

definition setTheme :: "jsstring \<Rightarrow> page \<Rightarrow> page" where
  "setTheme theme p =
     p\<lparr>dataTheme := Some theme,
       localStorage := (localStorage p)(str ''theme'' \<mapsto> theme),
       storageWrites := storageWrites p @ [(str ''theme'', theme)]\<rparr>"

definition toggleTheme :: "page \<Rightarrow> page" where
  "toggleTheme p =
     (let currentTheme = dataTheme p;
          newTheme = (if currentTheme = Some (str ''dark'') then str ''light'' else str ''dark'')
      in setTheme newTheme p)"

definition systemPrefersDark :: "page \<Rightarrow> bool" where
  "systemPrefersDark p =
     (case matchMedia p of None \<Rightarrow> False | Some mm \<Rightarrow> mm (str ''(prefers-color-scheme: dark)''))"

text \<open>\<^verbatim>\<open>savedTheme || (systemPrefersDark ? 'dark' : 'light')\<close>: the empty string is falsy.\<close>

definition initialTheme :: "page \<Rightarrow> jsstring" where
  "initialTheme p =
     (let fallback = (if systemPrefersDark p then str ''dark'' else str ''light'')
      in case localStorage p (str ''theme'') of
           None \<Rightarrow> fallback
         | Some savedTheme \<Rightarrow> if savedTheme \<noteq> [] then savedTheme else fallback)"

definition setupThemeToggle :: "page \<Rightarrow> completion \<times> page" where
  "setupThemeToggle p =
     (if \<not> el_themeToggle p then (Returned, p)
      else (Returned, addListener ThemeToggleClick (setTheme (initialTheme p) p)))"

subsection \<open>Scroll effects\<close>

definition hideForReveal :: "fade_el \<Rightarrow> fade_el" where
  "hideForReveal el =
     el\<lparr>opacity := str ''0'', fadeTransform := str ''translateY(20px)'',
        transition := str ''opacity 0.6s ease, transform 0.6s ease'', observed := True\<rparr>"

text \<open>
  \<^verbatim>\<open>window.matchMedia\<close> is called without the test that \<^verbatim>\<open>setupThemeToggle\<close> makes,
  and \<^verbatim>\<open>new IntersectionObserver\<close> without any test: the first throws a
  \<^verbatim>\<open>TypeError\<close> where \<^verbatim>\<open>matchMedia\<close> is missing, the second a \<^verbatim>\<open>ReferenceError\<close>
  where the constructor is missing, before any element has been touched.
\<close>

definition setupScrollEffects :: "page \<Rightarrow> completion \<times> page" where
  "setupScrollEffects p =
     (case matchMedia p of
        None \<Rightarrow> (Threw TypeError, p)
      | Some mm \<Rightarrow>
          if mm (str ''(prefers-reduced-motion: reduce)'') then (Returned, p)
          else if \<not> intersectionObserver p then (Threw ReferenceError, p)
          else (Returned, p\<lparr>animateElements := map hideForReveal (animateElements p)\<rparr>))"

text \<open>The callback of the intersection observer, for one entry.\<close>

definition reveal :: "bool \<Rightarrow> fade_el \<Rightarrow> fade_el" where
  "reveal isIntersecting el =
     (if observed el \<and> isIntersecting
      then el\<lparr>opacity := str ''1'', fadeTransform := str ''translateY(0)'', observed := False\<rparr>
      else el)"

subsection \<open>Notifications\<close>

definition removeExisting :: "page \<Rightarrow> page" where
  "removeExisting p =
     p\<lparr>notifications := (case notifications p of [] \<Rightarrow> [] | existing # rest \<Rightarrow> rest)\<rparr>"

definition appendNotification :: "jsstring \<Rightarrow> jsstring \<Rightarrow> page \<Rightarrow> page" where
  "appendNotification msg ty p =
     (let notification =
            \<lparr>nid = nextId p,
             className = str ''notification notification-'' @ ty,
             message = msg,
             background = (if ty = str ''success'' then str ''#28a745'' else str ''#dc3545''),
             transform = str ''translateX(100%)''\<rparr>
      in p\<lparr>notifications := notifications p @ [notification],
           nextId := Suc (nextId p),
           timers := timers p @ [AnimateIn (nextId p), SlideOut (nextId p)]\<rparr>)"

definition showNotification :: "jsstring \<Rightarrow> jsstring \<Rightarrow> page \<Rightarrow> page" where
  "showNotification msg ty p = appendNotification msg ty (removeExisting p)"

definition setTransform :: "nat \<Rightarrow> jsstring \<Rightarrow> page \<Rightarrow> page" where
  "setTransform i t p =
     p\<lparr>notifications :=
         map (\<lambda>n. if nid n = i then n\<lparr>transform := t\<rparr> else n) (notifications p)\<rparr>"

subsection \<open>Loading overlay and scheduled callbacks\<close>

definition hideLoadingScreen :: "page \<Rightarrow> page" where
  "hideLoadingScreen p =
     (if el_loading p \<noteq> None then p\<lparr>timers := timers p @ [HideLoading]\<rparr> else p)"

text \<open>
  What a scheduled callback does when the browser runs it. A banner that is no longer
  in the document is not in \<open>notifications\<close>; a change of its style is not recorded.
\<close>

fun runTask :: "task \<Rightarrow> page \<Rightarrow> page" where
  "runTask (AnimateIn i) p = setTransform i (str ''translateX(0)'') p"
| "runTask (SlideOut i) p =
     (setTransform i (str ''translateX(100%)'') p)\<lparr>timers := timers p @ [RemoveNotification i]\<rparr>"
| "runTask (RemoveNotification i) p =
     p\<lparr>notifications := filter (\<lambda>n. nid n \<noteq> i) (notifications p)\<rparr>"
| "runTask HideLoading p =
     (case el_loading p of
        None \<Rightarrow> p
      | Some l \<Rightarrow>
          p\<lparr>loading := Some (l\<lparr>loadingClasses := classList_add (str ''hide'') (loadingClasses l)\<rparr>),
            timers := timers p @ [DisplayNone]\<rparr>)"
| "runTask DisplayNone p =
     (case el_loading p of
        None \<Rightarrow> p
      | Some l \<Rightarrow> p\<lparr>loading := Some (l\<lparr>display := str ''none''\<rparr>)\<rparr>)"
| "runTask UpdateHeader p = updateHeaderOnScroll p"

subsection \<open>Form handling\<close>

definition listensTo :: "control \<Rightarrow> bool" where
  "listensTo c \<longleftrightarrow> tagName c = str ''input'' \<or> tagName c = str ''textarea''"

fun controlLoop :: "nat \<Rightarrow> control list \<Rightarrow> page \<Rightarrow> page" where
  "controlLoop i [] p = p"
| "controlLoop i (c # cs) p =
     controlLoop (Suc i) cs
       (if listensTo c then addListener (ControlInput i) (addListener (ControlBlur i) p) else p)"

definition setupFormHandling :: "page \<Rightarrow> page" where
  "setupFormHandling p =
     (case el_contactForm p of
        None \<Rightarrow> p
      | Some f \<Rightarrow> controlLoop 0 (controls f) (addListener FormSubmit p))"

text \<open>
  The value that \<^verbatim>\<open>response.json()\<close> resolves to. Numbers are kept as integers: the
  script reads nothing of a number but whether it is zero.
\<close>

datatype jsvalue =
    JUndefined | JNull | JBoolean bool | JNumber int | JString jsstring
  | JObject "(jsstring \<times> jsvalue) list" | JArray "jsvalue list"

fun truthy :: "jsvalue \<Rightarrow> bool" where
  "truthy JUndefined = False"
| "truthy JNull = False"
| "truthy (JBoolean b) = b"
| "truthy (JNumber n) = (n \<noteq> 0)"
| "truthy (JString s) = (s \<noteq> [])"
| "truthy (JObject members) = True"
| "truthy (JArray items) = True"

text \<open>
  Reading the property \<^verbatim>\<open>success\<close> or \<^verbatim>\<open>message\<close> of the parsed body: \<^verbatim>\<open>null\<close> has no
  properties, an object has its members (the last of equal names wins in
  \<^verbatim>\<open>JSON.parse\<close>), and every other value has neither property.
\<close>

fun getProp :: "jsvalue \<Rightarrow> jsstring \<Rightarrow> error + jsvalue" where
  "getProp JUndefined k = Inl TypeError"
| "getProp JNull k = Inl TypeError"
| "getProp (JObject members) k =
     Inr (case map_of (rev members) k of None \<Rightarrow> JUndefined | Some v \<Rightarrow> v)"
| "getProp v k = Inr JUndefined"

datatype body = InvalidJSON | Json jsvalue

text \<open>How the call of \<^verbatim>\<open>fetch\<close> and of \<^verbatim>\<open>response.json()\<close> ends.\<close>

datatype fetch_outcome = NetworkError | Response bool body

definition reset :: "form \<Rightarrow> form" where
  "reset f = f\<lparr>controls := map (\<lambda>c. c\<lparr>value := defaultValue c\<rparr>) (controls f)\<rparr>"

definition fixMessage :: jsstring where
  "fixMessage = str ''Please fix the errors below''"

definition successMessage :: jsstring where
  "successMessage = str ''Message sent successfully! We'' @ [0x27] @ str ''ll get back to you soon.''"

definition failureMessage :: jsstring where
  "failureMessage = str ''Failed to send message. Please try again.''"

text \<open>
  \<^verbatim>\<open>handleFormSubmit\<close> up to the call of \<^verbatim>\<open>fetch\<close>. Every control with the attribute
  \<^verbatim>\<open>required\<close> is validated, the others are left as they are.
\<close>

definition validateRequired :: "control \<Rightarrow> bool \<times> control" where
  "validateRequired c = (if required c then validateInput c else (True, c))"

definition handleFormSubmit_begin :: "page \<Rightarrow> completion \<times> page" where
  "handleFormSubmit_begin p =
     (case el_contactForm p of
        None \<Rightarrow> (Threw TypeError, p)
      | Some f \<Rightarrow>
          let results = map validateRequired (controls f);
              isFormValid = list_all fst results;
              f1 = f\<lparr>controls := map snd results\<rparr>;
              p1 = p\<lparr>contactForm := Some f1\<rparr>
          in if \<not> isFormValid then (Returned, showNotification fixMessage (str ''error'') p1)
             else (case submitBtn f1 of
                     None \<Rightarrow> (Threw TypeError, p1)
                   | Some btn \<Rightarrow>
                       (Suspended,
                        p1\<lparr>contactForm :=
                             Some (f1\<lparr>submitBtn :=
                               Some (btn\<lparr>textContent := str ''Sending...'', disabled := True\<rparr>)\<rparr>),
                           pending := pending p1 @ [textContent btn]\<rparr>)))"

text \<open>
  The rest of the \<^verbatim>\<open>try\<close> block, once the relay has answered or the request has
  failed: \<open>Inl\<close> is the exception that reaches \<^verbatim>\<open>catch\<close>.
\<close>

definition afterFetch :: "fetch_outcome \<Rightarrow> page \<Rightarrow> error + page" where
  "afterFetch outcome p =
     (case outcome of
        NetworkError \<Rightarrow> Inl NetworkFailure
      | Response ok InvalidJSON \<Rightarrow> Inl SyntaxError
      | Response ok (Json data) \<Rightarrow>
          (case (if ok then getProp data (str ''success'') else Inr (JBoolean False)) of
             Inl e \<Rightarrow> Inl e
           | Inr success \<Rightarrow>
               if ok \<and> truthy success
               then (let p1 = showNotification successMessage (str ''success'') p
                     in Inr (p1\<lparr>contactForm := map_option reset (contactForm p1)\<rparr>))
               else (case getProp data (str ''message'') of
                       Inl e \<Rightarrow> Inl e
                     | Inr m \<Rightarrow> Inl SubmitError)))"

definition restoreButton :: "jsstring \<Rightarrow> page \<Rightarrow> page" where
  "restoreButton originalText p =
     p\<lparr>contactForm :=
         map_option
           (\<lambda>f. f\<lparr>submitBtn :=
                    map_option (\<lambda>btn. btn\<lparr>textContent := originalText, disabled := False\<rparr>)
                      (submitBtn f)\<rparr>)
           (contactForm p)\<rparr>"

text \<open>\<^verbatim>\<open>handleFormSubmit\<close> from the answer on: \<^verbatim>\<open>try\<close>, \<^verbatim>\<open>catch\<close>, \<^verbatim>\<open>finally\<close>.\<close>

definition handleFormSubmit_resume ::
  "jsstring \<Rightarrow> fetch_outcome \<Rightarrow> page \<Rightarrow> completion \<times> page" where
  "handleFormSubmit_resume originalText outcome p =
     (let p1 = (case afterFetch outcome p of
                  Inr p' \<Rightarrow> p'
                | Inl e \<Rightarrow> showNotification failureMessage (str ''error'') p)
      in (Returned, restoreButton originalText p1))"

text \<open>A submission during which nothing else happens on the page.\<close>

definition handleFormSubmit :: "fetch_outcome \<Rightarrow> page \<Rightarrow> completion \<times> page" where
  "handleFormSubmit outcome p =
     (case handleFormSubmit_begin p of
        (Suspended, p1) \<Rightarrow>
          handleFormSubmit_resume (last (pending p1)) outcome (p1\<lparr>pending := butlast (pending p1)\<rparr>)
      | (c, p1) \<Rightarrow> (c, p1))"

subsection \<open>Initialisation\<close>

definition init :: "page \<Rightarrow> completion \<times> page" where
  "init p =
     (if isInitialized p then (Returned, p)
      else andThen (setupNavigation (cacheElements (p\<lparr>isInitialized := True\<rparr>)))
             (\<lambda>p1. andThen (setupThemeToggle p1)
               (\<lambda>p2. andThen (setupScrollEffects p2)
                 (\<lambda>p3. (Returned, hideLoadingScreen (setupFormHandling p3))))))"

subsection \<open>Events\<close>

text \<open>
  What the browser does to the page. A handler runs only if its element exists and
  its listener has been added; the listeners for \<^verbatim>\<open>keydown\<close> are added when the script
  is loaded. An exception thrown by a handler ends the handler and leaves the page as
  it is at that point. \<open>Input\<close> is an edit that sets the value of a control, \<open>Scroll\<close> a
  scroll to an offset, \<open>Answer k\<close> the end of the \<open>k\<close>-th waiting request and \<open>Timer k\<close>
  the run of the \<open>k\<close>-th scheduled callback.
\<close>

datatype event =
    Init | ClickNavToggle | ClickNavLink nat | KeyDown jsstring | Scroll int
  | ClickThemeToggle | Blur nat | Input nat jsstring | Submit
  | Answer nat fetch_outcome | Timer nat | Intersect nat bool

definition dropAt :: "nat \<Rightarrow> 'a list \<Rightarrow> 'a list" where
  "dropAt k xs = take k xs @ drop (Suc k) xs"

definition onControl :: "nat \<Rightarrow> (control \<Rightarrow> control) \<Rightarrow> page \<Rightarrow> page" where
  "onControl i g p =
     (case contactForm p of
        None \<Rightarrow> p
      | Some f \<Rightarrow>
          if i < length (controls f)
          then p\<lparr>contactForm := Some (f\<lparr>controls := (controls f)[i := g (controls f ! i)]\<rparr>)\<rparr>
          else p)"

fun step :: "event \<Rightarrow> page \<Rightarrow> page" where
  "step Init p = snd (init p)"
| "step ClickNavToggle p =
     (if navToggle p \<noteq> None \<and> NavToggleClick \<in> set (listeners p)
      then snd (toggleMobileMenu p) else p)"
| "step (ClickNavLink i) p =
     (if i < length (navLinks p) \<and> NavLinkClick i \<in> set (listeners p)
      then (case navLinks p ! i of None \<Rightarrow> p | Some href \<Rightarrow> snd (handleSmoothScroll href p))
      else p)"
| "step (KeyDown key) p =
     (if key = str ''Escape'' \<and> menuActive p then snd (toggleMobileMenu p) else p)"
| "step (Scroll y) p =
     (let p1 = p\<lparr>pageYOffset := y\<rparr>
      in if WindowScroll \<in> set (listeners p1) \<and> \<not> ticking p1
         then p1\<lparr>timers := timers p1 @ [UpdateHeader], ticking := True\<rparr>
         else p1)"
| "step ClickThemeToggle p =
     (if themeToggle p \<and> ThemeToggleClick \<in> set (listeners p) then toggleTheme p else p)"
| "step (Blur i) p =
     (if ControlBlur i \<in> set (listeners p) then onControl i (\<lambda>c. snd (validateInput c)) p else p)"
| "step (Input i v) p =
     (let p1 = onControl i (\<lambda>c. c\<lparr>value := v\<rparr>) p
      in if ControlInput i \<in> set (listeners p1) then onControl i clearValidationError p1 else p1)"
| "step Submit p =
     (if contactForm p \<noteq> None \<and> FormSubmit \<in> set (listeners p)
      then snd (handleFormSubmit_begin p) else p)"
| "step (Answer k outcome) p =
     (if k < length (pending p)
      then snd (handleFormSubmit_resume (pending p ! k) outcome (p\<lparr>pending := dropAt k (pending p)\<rparr>))
      else p)"
| "step (Timer k) p =
     (if k < length (timers p)
      then runTask (timers p ! k) (p\<lparr>timers := dropAt k (timers p)\<rparr>)
      else p)"
| "step (Intersect i isIntersecting) p =
     (if i < length (animateElements p)
      then p\<lparr>animateElements :=
             (animateElements p)[i := reveal isIntersecting (animateElements p ! i)]\<rparr>
      else p)"

definition run :: "event list \<Rightarrow> page \<Rightarrow> page" where
  "run evs p = foldl (\<lambda>q e. step e q) p evs"

subsection \<open>Predicates for the properties\<close>

text \<open>Every navigation link of the page carries the attribute \<^verbatim>\<open>href\<close>.\<close>

definition linksOk :: "page \<Rightarrow> bool" where
  "linksOk p \<longleftrightarrow> list_all (\<lambda>l. l \<noteq> None) (navLinks p)"

text \<open>The navigation menu is in the document and has the class \<^verbatim>\<open>active\<close>.\<close>

definition menuOpen :: "page \<Rightarrow> bool" where
  "menuOpen p = (case navMenu p of None \<Rightarrow> False | Some menu \<Rightarrow> str ''active'' \<in> set menu)"

text \<open>The body suppresses scrolling: its inline \<^verbatim>\<open>overflow\<close> is \<^verbatim>\<open>hidden\<close>.\<close>

definition scrollLocked :: "page \<Rightarrow> bool" where
  "scrollLocked p \<longleftrightarrow> bodyOverflow p = str ''hidden''"

definition lockStep :: "page \<Rightarrow> bool" where
  "lockStep p \<longleftrightarrow> (menuOpen p \<longleftrightarrow> scrollLocked p)"

text \<open>Lock step, and a menu that is closed on a page without the toggle control.\<close>

definition navInv :: "page \<Rightarrow> bool" where
  "navInv p \<longleftrightarrow> lockStep p \<and> (navToggle p = None \<longrightarrow> \<not> menuOpen p)"

definition atMostOneBanner :: "page \<Rightarrow> bool" where
  "atMostOneBanner p \<longleftrightarrow> length (notifications p) \<le> 1"

text \<open>\<^verbatim>\<open>data.success\<close> can be read and is truthy.\<close>

definition dataSuccess :: "jsvalue \<Rightarrow> bool" where
  "dataSuccess data = (case getProp data (str ''success'') of Inl e \<Rightarrow> False | Inr v \<Rightarrow> truthy v)"

text \<open>
  The request has failed: a network error, a body that is not JSON, an HTTP failure
  status, or a body whose \<^verbatim>\<open>success\<close> cannot be read or is falsy.
\<close>

fun relayFailed :: "fetch_outcome \<Rightarrow> bool" where
  "relayFailed NetworkError = True"
| "relayFailed (Response ok InvalidJSON) = True"
| "relayFailed (Response ok (Json data)) = (\<not> ok \<or> \<not> dataSuccess data)"

text \<open>The element that \<^verbatim>\<open>showNotification\<close> creates, with identity \<open>i\<close>.\<close>

definition banner :: "nat \<Rightarrow> jsstring \<Rightarrow> jsstring \<Rightarrow> notification" where
  "banner i msg ty =
     \<lparr>nid = i, className = str ''notification notification-'' @ ty, message = msg,
      background = (if ty = str ''success'' then str ''#28a745'' else str ''#dc3545''),
      transform = str ''translateX(100%)''\<rparr>"

text \<open>
  Two pages agree on what the theme and the initialisation depend on, and on the
  navigation menu and the scroll lock, respectively.
\<close>

definition sameTheme :: "page \<Rightarrow> page \<Rightarrow> bool" where
  "sameTheme p q \<longleftrightarrow>
     storageWrites q = storageWrites p \<and> localStorage q = localStorage p \<and>
     matchMedia q = matchMedia p \<and> isInitialized q = isInitialized p \<and>
     themeToggle q = themeToggle p \<and> navLinks q = navLinks p \<and> dataTheme q = dataTheme p"

definition sameNav :: "page \<Rightarrow> page \<Rightarrow> bool" where
  "sameNav p q \<longleftrightarrow>
     navMenu q = navMenu p \<and> navToggle q = navToggle p \<and> bodyOverflow q = bodyOverflow p"

subsection \<open>Sample controls, pages and answers\<close>

definition paddedEmailField :: control where
  "paddedEmailField =
     \<lparr>tagName = str ''input'', type = str ''email'', value = 0xA0 # str ''a@b.co'',
      defaultValue = [], required = False, borderColor = [], errorEls = []\<rparr>"

definition emptyRequiredField :: control where
  "emptyRequiredField =
     \<lparr>tagName = str ''input'', type = str ''text'', value = [],
      defaultValue = [], required = True, borderColor = [], errorEls = []\<rparr>"

definition badEmailField :: control where
  "badEmailField =
     \<lparr>tagName = str ''input'', type = str ''email'', value = str ''a@b'',
      defaultValue = [], required = True, borderColor = [], errorEls = []\<rparr>"

definition goodEmailField :: control where
  "goodEmailField =
     \<lparr>tagName = str ''input'', type = str ''email'', value = str ''a@b.co'',
      defaultValue = [], required = True, borderColor = str ''#dc3545'', errorEls = [emailMessage]\<rparr>"

definition blankSpaceField :: control where
  "blankSpaceField =
     \<lparr>tagName = str ''textarea'', type = str ''textarea'', value = [0x20, 0x09, 0x3000],
      defaultValue = [], required = True, borderColor = [], errorEls = []\<rparr>"

definition optionalEmailField :: control where
  "optionalEmailField =
     \<lparr>tagName = str ''input'', type = str ''email'', value = [0x20],
      defaultValue = [], required = False, borderColor = [], errorEls = []\<rparr>"

definition blankPage :: page where
  "blankPage =
     \<lparr>isInitialized = False, cached = False, ticking = False, loading = None, header = None,
      navToggle = None, navMenu = None, navLinks = [], themeToggle = False,
      contactForm = None, animateElements = [], dataTheme = None, bodyOverflow = [],
      notifications = [], nextId = 0, querySelector = (\<lambda>sel. NoMatch), scrollTo = None,
      pageYOffset = 0, localStorage = Map.empty, storageWrites = [],
      matchMedia = Some (\<lambda>q. False), intersectionObserver = True,
      listeners = [], timers = [], pending = []\<rparr>"

definition darkPage :: page where
  "darkPage = blankPage\<lparr>themeToggle := True, dataTheme := Some (str ''dark''),
     localStorage := [str ''theme'' \<mapsto> str ''dark'']\<rparr>"

definition autoPage :: page where
  "autoPage = blankPage\<lparr>themeToggle := True, dataTheme := Some (str ''auto''),
     localStorage := [str ''theme'' \<mapsto> str ''auto'']\<rparr>"

definition bluePage :: page where
  "bluePage = blankPage\<lparr>themeToggle := True, localStorage := [str ''theme'' \<mapsto> str ''blue'']\<rparr>"

definition freshDarkPage :: page where
  "freshDarkPage = blankPage\<lparr>themeToggle := True,
     matchMedia := Some (\<lambda>q. q = str ''(prefers-color-scheme: dark)'')\<rparr>"

definition togglePage :: page where
  "togglePage = blankPage\<lparr>themeToggle := True\<rparr>"

definition navPage :: page where
  "navPage = blankPage\<lparr>navToggle := Some [str ''nav-toggle''], navMenu := Some [str ''nav-menu'']\<rparr>"

definition contactPage :: page where
  "contactPage =
     blankPage\<lparr>contactForm :=
       Some \<lparr>controls = [emptyRequiredField],
             submitBtn = Some \<lparr>textContent = str ''Send'', disabled = False\<rparr>\<rparr>\<rparr>"

definition sendButton :: button where
  "sendButton = \<lparr>textContent = str ''Send'', disabled = False\<rparr>"

definition validPage :: page where
  "validPage =
     blankPage\<lparr>cached := True,
       contactForm := Some \<lparr>controls = [goodEmailField], submitBtn = Some sendButton\<rparr>\<rparr>"

definition refusal :: jsvalue where
  "refusal = JObject [(str ''success'', JBoolean False), (str ''message'', JString (str ''Invalid key''))]"

definition oddAnswer :: jsvalue where
  "oddAnswer = JObject [(str ''success'', JNumber 1)]"

text \<open>
  Three pages with the theme toggle, the contact form and the loading overlay, and
  without a header and a navigation menu: one with a navigation link that has no
  \<^verbatim>\<open>href\<close>, one in a browser without \<^verbatim>\<open>window.matchMedia\<close>, one in a browser
  without \<^verbatim>\<open>IntersectionObserver\<close>.
\<close>

definition featurePage :: page where
  "featurePage =
     blankPage\<lparr>themeToggle := True,
       loading := Some \<lparr>loadingClasses = [str ''loading''], display = []\<rparr>,
       contactForm := Some \<lparr>controls = [goodEmailField], submitBtn = Some sendButton\<rparr>\<rparr>"

definition noHrefPage :: page where
  "noHrefPage = featurePage\<lparr>navLinks := [None]\<rparr>"

definition noMatchMediaPage :: page where
  "noMatchMediaPage = featurePage\<lparr>matchMedia := None\<rparr>"

definition noObserverPage :: page where
  "noObserverPage = featurePage\<lparr>intersectionObserver := False\<rparr>"

section \<open>Properties\<close>

subsection \<open>The pattern and the shape\<close>

lemma rx_test_One:
  "rx_test (One a # ps) s \<longleftrightarrow> (\<exists>c cs. s = c # cs \<and> atom_matches a c \<and> rx_test ps cs)"
  by (cases s) auto

lemma rx_test_Plus:
  "rx_test (Plus a # ps) s \<longleftrightarrow>
     (\<exists>u v. s = u @ v \<and> u \<noteq> [] \<and> list_all (atom_matches a) u \<and> rx_test ps v)"
proof (induction s)
  case Nil
  then show ?case by simp
next
  case (Cons c cs)
  show ?case
  proof
    assume "rx_test (Plus a # ps) (c # cs)"
    then have m: "atom_matches a c" and d: "rx_test ps cs \<or> rx_test (Plus a # ps) cs"
      by simp_all
    from d show "\<exists>u v. c # cs = u @ v \<and> u \<noteq> [] \<and> list_all (atom_matches a) u \<and> rx_test ps v"
    proof
      assume "rx_test ps cs"
      with m have "c # cs = [c] @ cs \<and> [c] \<noteq> [] \<and> list_all (atom_matches a) [c] \<and> rx_test ps cs"
        by simp
      then show ?thesis by blast
    next
      assume "rx_test (Plus a # ps) cs"
      with Cons.IH obtain u v where
        "cs = u @ v" "u \<noteq> []" "list_all (atom_matches a) u" "rx_test ps v"
        by blast
      with m have "c # cs = (c # u) @ v \<and> c # u \<noteq> [] \<and> list_all (atom_matches a) (c # u) \<and> rx_test ps v"
        by simp
      then show ?thesis by blast
    qed
  next
    assume "\<exists>u v. c # cs = u @ v \<and> u \<noteq> [] \<and> list_all (atom_matches a) u \<and> rx_test ps v"
    then obtain u v where uv: "c # cs = u @ v" "u \<noteq> []" "list_all (atom_matches a) u" "rx_test ps v"
      by blast
    then obtain u' where u: "u = c # u'" and cs: "cs = u' @ v"
      by (cases u) auto
    show "rx_test (Plus a # ps) (c # cs)"
    proof (cases "u' = []")
      case True
      with uv u cs show ?thesis by simp
    next
      case False
      with uv u cs have "rx_test (Plus a # ps) cs"
        using Cons.IH by auto
      with uv u show ?thesis by simp
    qed
  qed
qed

lemma atom_matches_notSpaceOrAt: "atom_matches notSpaceOrAt c = plainChar c"
  by (simp add: notSpaceOrAt_def plainChar_def)

lemma isValidEmail_shape: "isValidEmail s = email_shape s"
  unfolding isValidEmail_def emailPattern_def email_shape_def
  apply (simp only: rx_test_Plus rx_test_One rx_test.simps(1))
  apply (simp add: atom_matches_notSpaceOrAt [abs_def])
  apply (rule iffI)
   apply (elim exE conjE)
   apply (simp)
   apply blast
  apply (elim exE conjE)
  apply simp
  apply blast
  done

subsection \<open>Trimming\<close>

lemma trim_Nil_iff: "trim s = [] \<longleftrightarrow> list_all isWhiteSpace s"
proof -
  let ?ys = "dropWhile isWhiteSpace s"
  have "dropWhile isWhiteSpace (rev ?ys) = [] \<longleftrightarrow> ?ys = []"
  proof
    assume a: "dropWhile isWhiteSpace (rev ?ys) = []"
    show "?ys = []"
    proof (rule ccontr)
      assume ne: "?ys \<noteq> []"
      then have "\<not> isWhiteSpace (hd ?ys)" by (rule hd_dropWhile)
      moreover from ne have "hd ?ys \<in> set ?ys" by simp
      ultimately show False using a by (auto simp: dropWhile_eq_Nil_conv)
    qed
  next
    assume "?ys = []"
    then show "dropWhile isWhiteSpace (rev ?ys) = []" by (simp only: rev.simps dropWhile.simps)
  qed
  then show ?thesis
    by (simp add: trim_def dropWhile_eq_Nil_conv list_all_iff)
qed

lemma trim_unpadded:
  assumes "s \<noteq> []" "\<not> isWhiteSpace (hd s)" "\<not> isWhiteSpace (last s)"
  shows "trim s = s"
proof -
  from assms(1,2) have "dropWhile isWhiteSpace s = s"
    by (cases s) simp_all
  moreover from assms(1,3) have "dropWhile isWhiteSpace (rev s) = rev s"
    by (cases "rev s") (simp_all add: hd_rev [symmetric] del: hd_rev)
  ultimately show ?thesis by (simp add: trim_def)
qed

lemma email_shape_trim:
  assumes "email_shape s"
  shows "trim s = s"
proof -
  from assms obtain l d t where
    s: "s = l @ [0x40] @ d @ [0x2E] @ t" and ne: "l \<noteq> []" "t \<noteq> []"
    and pl: "list_all plainChar l" "list_all plainChar t"
    unfolding email_shape_def by blast
  from ne(1) pl(1) have "\<not> isWhiteSpace (hd s)"
    by (cases l) (simp_all add: s plainChar_def)
  moreover from ne(2) pl(2) have "\<not> isWhiteSpace (last s)"
    by (cases t rule: rev_cases) (simp_all add: s plainChar_def)
  moreover from ne have "s \<noteq> []" by (simp add: s)
  ultimately show ?thesis by (rule trim_unpadded [rotated 1]) 
qed

lemma validateInput_required:
  "required input \<Longrightarrow> trim (value input) = [] \<Longrightarrow>
   validateInput input = (False, showValidationError (clearValidationError input) requiredMessage)"
  by (simp add: validateInput_def)

lemma validateInput_email:
  "\<not> (required input \<and> trim (value input) = []) \<Longrightarrow> type input = str ''email'' \<Longrightarrow>
   trim (value input) \<noteq> [] \<Longrightarrow> \<not> isValidEmail (trim (value input)) \<Longrightarrow>
   validateInput input = (False, showValidationError (clearValidationError input) emailMessage)"
  by (simp add: validateInput_def)

lemma validateInput_ok:
  "\<not> (required input \<and> trim (value input) = []) \<Longrightarrow>
   \<not> (type input = str ''email'' \<and> trim (value input) \<noteq> [] \<and> \<not> isValidEmail (trim (value input))) \<Longrightarrow>
   validateInput input = (True, clearValidationError input)"
  by (auto simp: validateInput_def)

subsection \<open>Validation of one control\<close>

lemmas eval_email = isValidEmail_def emailPattern_def notSpaceOrAt_def str_def isWhiteSpace_def trim_def

text \<open>
  Claim C1, with the second rule read on the trimmed value. A required control whose
  value is empty fails with the message for a required field. Otherwise an email
  control whose trimmed value is non-empty and does not have the shape of an address
  fails with the message for an invalid address. An email control whose value is
  non-empty and has the shape passes, its border colour is reset and the first
  \<^verbatim>\<open>error-message\<close> element below its parent, the one an earlier validation wrote to,
  is removed.
\<close>

theorem validateInput_rules:
  "(required input \<and> value input = [] \<longrightarrow>
      fst (validateInput input) = False \<and>
      borderColor (snd (validateInput input)) = str ''#dc3545'' \<and>
      errorEls (snd (validateInput input)) = requiredMessage # tl (tl (errorEls input)))
   \<and> (\<not> (required input \<and> trim (value input) = []) \<and> type input = str ''email'' \<and>
       trim (value input) \<noteq> [] \<and> \<not> email_shape (trim (value input)) \<longrightarrow>
      fst (validateInput input) = False \<and>
      borderColor (snd (validateInput input)) = str ''#dc3545'' \<and>
      errorEls (snd (validateInput input)) = emailMessage # tl (tl (errorEls input)))
   \<and> (type input = str ''email'' \<and> value input \<noteq> [] \<and> email_shape (value input) \<longrightarrow>
      fst (validateInput input) = True \<and>
      borderColor (snd (validateInput input)) = [] \<and>
      errorEls (snd (validateInput input)) = tl (errorEls input))"
proof (intro conjI impI)
  assume a: "required input \<and> value input = []"
  then have "trim (value input) = []" by (simp add: trim_def)
  with a have r: "validateInput input =
      (False, showValidationError (clearValidationError input) requiredMessage)"
    by (simp add: validateInput_required)
  show "fst (validateInput input) = False"
    and "borderColor (snd (validateInput input)) = str ''#dc3545''"
    and "errorEls (snd (validateInput input)) = requiredMessage # tl (tl (errorEls input))"
    by (simp_all add: r showValidationError_def clearValidationError_def split: list.splits)
next
  assume a: "\<not> (required input \<and> trim (value input) = []) \<and> type input = str ''email'' \<and>
       trim (value input) \<noteq> [] \<and> \<not> email_shape (trim (value input))"
  then have r: "validateInput input =
      (False, showValidationError (clearValidationError input) emailMessage)"
    by (intro validateInput_email) (simp_all add: isValidEmail_shape)
  show "fst (validateInput input) = False"
    and "borderColor (snd (validateInput input)) = str ''#dc3545''"
    and "errorEls (snd (validateInput input)) = emailMessage # tl (tl (errorEls input))"
    by (simp_all add: r showValidationError_def clearValidationError_def split: list.splits)
next
  assume a: "type input = str ''email'' \<and> value input \<noteq> [] \<and> email_shape (value input)"
  then have t: "trim (value input) = value input" by (simp add: email_shape_trim)
  with a have r: "validateInput input = (True, clearValidationError input)"
    by (intro validateInput_ok) (simp_all add: isValidEmail_shape)
  show "fst (validateInput input) = True"
    and "borderColor (snd (validateInput input)) = []"
    and "errorEls (snd (validateInput input)) = tl (errorEls input)"
    by (simp_all add: r clearValidationError_def split: list.splits)
qed

lemma not_shape_a_b: "\<not> email_shape (str ''a@b'')"
  unfolding isValidEmail_shape [symmetric] by (simp add: eval_email)

lemma shape_a_b_co: "email_shape (str ''a@b.co'')"
  unfolding isValidEmail_shape [symmetric] by (simp add: eval_email)

lemma not_shape_padded: "\<not> email_shape (0xA0 # str ''a@b.co'')"
  unfolding isValidEmail_shape [symmetric] by (simp add: eval_email)

text \<open>The three rules at an empty required field, at \<^verbatim>\<open>a@b\<close> and at \<^verbatim>\<open>a@b.co\<close>.\<close>

theorem validateInput_rules_witness:
  "(required emptyRequiredField \<and> value emptyRequiredField = []) \<and>
   fst (validateInput emptyRequiredField) = False \<and>
   errorEls (snd (validateInput emptyRequiredField)) = [requiredMessage] \<and>
   (\<not> (required badEmailField \<and> trim (value badEmailField) = []) \<and>
    type badEmailField = str ''email'' \<and> trim (value badEmailField) \<noteq> [] \<and>
    \<not> email_shape (trim (value badEmailField))) \<and>
   fst (validateInput badEmailField) = False \<and>
   errorEls (snd (validateInput badEmailField)) = [emailMessage] \<and>
   (type goodEmailField = str ''email'' \<and> value goodEmailField \<noteq> [] \<and>
    email_shape (value goodEmailField)) \<and>
   fst (validateInput goodEmailField) = True \<and>
   errorEls (snd (validateInput goodEmailField)) = []"
proof -
  have t: "trim (str ''a@b'') = str ''a@b''"
    by (simp add: trim_def str_def isWhiteSpace_def)
  have h1: "required emptyRequiredField \<and> value emptyRequiredField = []"
    by (simp add: emptyRequiredField_def)
  have h2: "\<not> (required badEmailField \<and> trim (value badEmailField) = []) \<and>
    type badEmailField = str ''email'' \<and> trim (value badEmailField) \<noteq> [] \<and>
    \<not> email_shape (trim (value badEmailField))"
    using not_shape_a_b by (simp add: badEmailField_def t) (simp add: str_def)
  have h3: "type goodEmailField = str ''email'' \<and> value goodEmailField \<noteq> [] \<and>
    email_shape (value goodEmailField)"
    using shape_a_b_co by (simp add: goodEmailField_def) (simp add: str_def)
  have e1: "tl (tl (errorEls emptyRequiredField)) = []"
    by (simp add: emptyRequiredField_def)
  have e2: "tl (tl (errorEls badEmailField)) = []"
    by (simp add: badEmailField_def)
  have e3: "tl (errorEls goodEmailField) = []"
    by (simp add: goodEmailField_def)
  from h1 validateInput_rules [of emptyRequiredField]
  have "fst (validateInput emptyRequiredField) = False \<and>
        errorEls (snd (validateInput emptyRequiredField)) = [requiredMessage]"
    unfolding e1 by blast
  moreover from h2 validateInput_rules [of badEmailField]
  have "fst (validateInput badEmailField) = False \<and>
        errorEls (snd (validateInput badEmailField)) = [emailMessage]"
    unfolding e2 by blast
  moreover from h3 validateInput_rules [of goodEmailField]
  have "fst (validateInput goodEmailField) = True \<and>
        errorEls (snd (validateInput goodEmailField)) = []"
    unfolding e3 by blast
  ultimately show ?thesis using h1 h2 h3 by blast
qed

text \<open>
  Claim C1 as it is written, on the value itself, fails: an email control that is not
  required and holds a no-break space followed by \<^verbatim>\<open>a@b.co\<close> has a non-empty value that
  does not have the shape, and it passes without any error.
\<close>

theorem validateInput_raw_value_counterexample:
  "\<not> (required paddedEmailField \<and> value paddedEmailField = []) \<and>
   type paddedEmailField = str ''email'' \<and>
   value paddedEmailField \<noteq> [] \<and>
   \<not> email_shape (value paddedEmailField) \<and>
   validateInput paddedEmailField = (True, paddedEmailField)"
proof -
  have "trim (0xA0 # str ''a@b.co'') = str ''a@b.co''"
    by (simp add: trim_def str_def isWhiteSpace_def)
  moreover have "isValidEmail (str ''a@b.co'')"
    by (simp add: eval_email)
  ultimately have "validateInput paddedEmailField = (True, paddedEmailField)"
    by (simp add: validateInput_def paddedEmailField_def clearValidationError_def)
  with not_shape_padded show ?thesis
    by (simp add: paddedEmailField_def)
qed

text \<open>
  Claim C9. A required control whose value consists of white space only is trimmed to
  the empty string and fails with the message for a required field. An email control
  that is not required and whose value is empty or white space only passes: its
  border colour is reset, the first \<^verbatim>\<open>error-message\<close> element below its parent is
  removed and none is written.
\<close>

theorem validateInput_whitespace:
  "(required input \<and> list_all isWhiteSpace (value input) \<longrightarrow>
      trim (value input) = [] \<and>
      fst (validateInput input) = False \<and>
      borderColor (snd (validateInput input)) = str ''#dc3545'' \<and>
      errorEls (snd (validateInput input)) = requiredMessage # tl (tl (errorEls input)))
   \<and> (\<not> required input \<and> type input = str ''email'' \<and> list_all isWhiteSpace (value input) \<longrightarrow>
      trim (value input) = [] \<and>
      fst (validateInput input) = True \<and>
      borderColor (snd (validateInput input)) = [] \<and>
      errorEls (snd (validateInput input)) = tl (errorEls input))"
proof (intro conjI impI)
  assume a: "required input \<and> list_all isWhiteSpace (value input)"
  then show t: "trim (value input) = []" by (simp add: trim_Nil_iff)
  with a have r: "validateInput input =
      (False, showValidationError (clearValidationError input) requiredMessage)"
    by (simp add: validateInput_required)
  show "fst (validateInput input) = False"
    and "borderColor (snd (validateInput input)) = str ''#dc3545''"
    and "errorEls (snd (validateInput input)) = requiredMessage # tl (tl (errorEls input))"
    by (simp_all add: r showValidationError_def clearValidationError_def split: list.splits)
next
  assume a: "\<not> required input \<and> type input = str ''email'' \<and> list_all isWhiteSpace (value input)"
  then show t: "trim (value input) = []" by (simp add: trim_Nil_iff)
  with a have r: "validateInput input = (True, clearValidationError input)"
    by (intro validateInput_ok) simp_all
  show "fst (validateInput input) = True"
    and "borderColor (snd (validateInput input)) = []"
    and "errorEls (snd (validateInput input)) = tl (errorEls input)"
    by (simp_all add: r clearValidationError_def split: list.splits)
qed

text \<open>Both rules, at a required text area and at an optional email field.\<close>

theorem validateInput_whitespace_witness:
  "(required blankSpaceField \<and> list_all isWhiteSpace (value blankSpaceField)) \<and>
   fst (validateInput blankSpaceField) = False \<and>
   errorEls (snd (validateInput blankSpaceField)) = [requiredMessage] \<and>
   (\<not> required optionalEmailField \<and> type optionalEmailField = str ''email'' \<and>
    list_all isWhiteSpace (value optionalEmailField)) \<and>
   fst (validateInput optionalEmailField) = True \<and>
   errorEls (snd (validateInput optionalEmailField)) = []"
proof -
  have h1: "required blankSpaceField \<and> list_all isWhiteSpace (value blankSpaceField)"
    by (simp add: blankSpaceField_def isWhiteSpace_def)
  have h2: "\<not> required optionalEmailField \<and> type optionalEmailField = str ''email'' \<and>
    list_all isWhiteSpace (value optionalEmailField)"
    by (simp add: optionalEmailField_def isWhiteSpace_def)
  have e1: "tl (tl (errorEls blankSpaceField)) = []"
    by (simp add: blankSpaceField_def)
  have e2: "tl (errorEls optionalEmailField) = []"
    by (simp add: optionalEmailField_def)
  from h1 validateInput_whitespace [of blankSpaceField]
  have "fst (validateInput blankSpaceField) = False \<and>
        errorEls (snd (validateInput blankSpaceField)) = [requiredMessage]"
    unfolding e1 by blast
  moreover from h2 validateInput_whitespace [of optionalEmailField]
  have "fst (validateInput optionalEmailField) = True \<and>
        errorEls (snd (validateInput optionalEmailField)) = []"
    unfolding e2 by blast
  ultimately show ?thesis using h1 h2 by blast
qed

subsection \<open>Theme\<close>

lemma str_theme_neq [simp]:
  "str ''light'' \<noteq> str ''dark''" "str ''dark'' \<noteq> str ''light''"
  "str ''light'' \<noteq> []" "str ''dark'' \<noteq> []"
  by (simp_all add: str_def)

lemma toggleTheme_twice:
  "dataTheme (toggleTheme (toggleTheme p)) =
     Some (if dataTheme p = Some (str ''dark'') then str ''dark'' else str ''light'')"
  "localStorage (toggleTheme (toggleTheme p)) (str ''theme'') =
     Some (if dataTheme p = Some (str ''dark'') then str ''dark'' else str ''light'')"
  by (simp_all add: toggleTheme_def setTheme_def Let_def)

text \<open>
  Claim C4, for the states in which the theme attribute and the persisted value agree
  and are one of the two themes: toggling twice gives back the attribute, the persisted
  value and the whole storage.
\<close>

theorem toggleTheme_round_trip:
  "dataTheme p = Some t \<and> localStorage p (str ''theme'') = Some t \<and>
   (t = str ''light'' \<or> t = str ''dark'') \<longrightarrow>
   dataTheme (toggleTheme (toggleTheme p)) = dataTheme p \<and>
   localStorage (toggleTheme (toggleTheme p)) (str ''theme'') = localStorage p (str ''theme'') \<and>
   localStorage (toggleTheme (toggleTheme p)) = localStorage p"
  by (auto simp: toggleTheme_def setTheme_def Let_def)

text \<open>The round trip on a dark page.\<close>

theorem toggleTheme_round_trip_witness:
  "(dataTheme darkPage = Some (str ''dark'') \<and>
    localStorage darkPage (str ''theme'') = Some (str ''dark'')) \<and>
   dataTheme (toggleTheme (toggleTheme darkPage)) = Some (str ''dark'') \<and>
   localStorage (toggleTheme (toggleTheme darkPage)) (str ''theme'') = Some (str ''dark'')"
proof -
  have h: "dataTheme darkPage = Some (str ''dark'') \<and>
    localStorage darkPage (str ''theme'') = Some (str ''dark'')"
    by (simp add: darkPage_def blankPage_def)
  with toggleTheme_round_trip [of darkPage "str ''dark''"] show ?thesis
    by simp
qed

text \<open>
  Claim C4 as it is written, for every starting state, fails: from a page whose
  attribute and persisted value are both \<^verbatim>\<open>auto\<close>, two toggles end at \<^verbatim>\<open>light\<close>.
\<close>

theorem toggleTheme_round_trip_counterexample:
  "dataTheme autoPage = Some (str ''auto'') \<and>
   localStorage autoPage (str ''theme'') = Some (str ''auto'') \<and>
   dataTheme (toggleTheme (toggleTheme autoPage)) = Some (str ''light'') \<and>
   localStorage (toggleTheme (toggleTheme autoPage)) (str ''theme'') = Some (str ''light'') \<and>
   str ''light'' \<noteq> str ''auto''"
  by (simp add: toggleTheme_twice) (simp add: autoPage_def blankPage_def str_def)

subsection \<open>Initialisation, step by step\<close>

lemma addListener_alt:
  "addListener l p =
     p\<lparr>listeners := (if l \<in> set (listeners p) then listeners p else listeners p @ [l])\<rparr>"
  by (simp add: addListener_def)

lemma addListener_mem: "l \<in> set (listeners (addListener l p))"
  by (simp add: addListener_def)

lemma addListener_mono: "k \<in> set (listeners p) \<Longrightarrow> k \<in> set (listeners (addListener l p))"
  by (simp add: addListener_def)

lemma linkLoop_fst:
  "fst (linkLoop i ls p) = (if list_all (\<lambda>l. l \<noteq> None) ls then Returned else Threw TypeError)"
proof (induction ls arbitrary: i p)
  case Nil
  show ?case by simp
next
  case (Cons l ls)
  show ?case by (cases l) (simp_all add: Cons.IH)
qed

lemma linkLoop_snd: "\<exists>L. snd (linkLoop i ls p) = p\<lparr>listeners := L\<rparr>"
proof (induction ls arbitrary: i p)
  case Nil
  have "p = p\<lparr>listeners := listeners p\<rparr>" by simp
  then show ?case by (metis linkLoop.simps(1) snd_conv)
next
  case (Cons l ls)
  show ?case
  proof (cases l)
    case None
    have "p = p\<lparr>listeners := listeners p\<rparr>" by simp
    with None show ?thesis by (metis linkLoop.simps(2) snd_conv)
  next
    case (Some h)
    let ?q = "if startsWith h (str ''#'') then addListener (NavLinkClick i) p else p"
    obtain L0 where q: "?q = p\<lparr>listeners := L0\<rparr>"
      by (cases "startsWith h (str ''#'')") (auto simp: addListener_alt intro: that [of "listeners p"])
    from Cons.IH [of "Suc i" ?q] obtain L where "snd (linkLoop (Suc i) ls ?q) = ?q\<lparr>listeners := L\<rparr>"
      by blast
    with q have "snd (linkLoop i (l # ls) p) = p\<lparr>listeners := L\<rparr>"
      by (simp add: Some)
    then show ?thesis by blast
  qed
qed

lemma linkLoop_keeps: "k \<in> set (listeners p) \<Longrightarrow> k \<in> set (listeners (snd (linkLoop i ls p)))"
proof (induction ls arbitrary: i p)
  case Nil
  then show ?case by simp
next
  case (Cons l ls)
  then show ?case by (cases l) (simp_all add: addListener_mono)
qed

lemma setupNavigation_fst:
  "fst (setupNavigation p) =
     (if list_all (\<lambda>l. l \<noteq> None) (navLinks p) then Returned else Threw TypeError)"
proof -
  let ?p1 = "if el_navToggle p \<noteq> None \<and> el_navMenu p \<noteq> None then addListener NavToggleClick p else p"
  have n: "navLinks ?p1 = navLinks p" by (simp add: addListener_def)
  obtain c q where r: "linkLoop 0 (navLinks ?p1) ?p1 = (c, q)" by (cases "linkLoop 0 (navLinks ?p1) ?p1")
  with linkLoop_fst [of 0 "navLinks ?p1" ?p1] n
  have c: "c = (if list_all (\<lambda>l. l \<noteq> None) (navLinks p) then Returned else Threw TypeError)"
    by simp
  show ?thesis
    unfolding setupNavigation_def Let_def r andThen_def using c by (simp split: completion.splits)
qed

lemma setupNavigation_snd: "\<exists>t L. snd (setupNavigation p) = p\<lparr>ticking := t, listeners := L\<rparr>"
proof -
  let ?p1 = "if el_navToggle p \<noteq> None \<and> el_navMenu p \<noteq> None then addListener NavToggleClick p else p"
  obtain L1 where p1: "?p1 = p\<lparr>listeners := L1\<rparr>"
    by (cases "el_navToggle p \<noteq> None \<and> el_navMenu p \<noteq> None")
       (auto simp: addListener_alt intro: that [of "listeners p"])
  obtain c q where r: "linkLoop 0 (navLinks ?p1) ?p1 = (c, q)" by (cases "linkLoop 0 (navLinks ?p1) ?p1")
  from linkLoop_snd [of 0 "navLinks ?p1" ?p1] r obtain L2 where q: "q = ?p1\<lparr>listeners := L2\<rparr>"
    by auto
  with p1 have q': "q = p\<lparr>listeners := L2\<rparr>" by simp
  have "snd (setupNavigation p) = q \<or> snd (setupNavigation p) = addListener WindowScroll (q\<lparr>ticking := False\<rparr>)"
    unfolding setupNavigation_def Let_def r andThen_def by (simp split: completion.splits)
  then show ?thesis
  proof
    assume "snd (setupNavigation p) = q"
    with q' have "snd (setupNavigation p) = p\<lparr>ticking := ticking p, listeners := L2\<rparr>" by simp
    then show ?thesis by blast
  next
    assume "snd (setupNavigation p) = addListener WindowScroll (q\<lparr>ticking := False\<rparr>)"
    with q' have "snd (setupNavigation p) = p\<lparr>ticking := False,
        listeners := (if WindowScroll \<in> set L2 then L2 else L2 @ [WindowScroll])\<rparr>"
      by (simp add: addListener_alt)
    then show ?thesis by blast
  qed
qed

lemma andThen_snd:
  "snd (andThen r f) = (if fst r = Returned then snd (f (snd r)) else snd r)"
  by (cases r) (simp add: andThen_def split: completion.splits)

lemma andThen_fst:
  "fst (andThen r f) = (if fst r = Returned then fst (f (snd r)) else fst r)"
  by (cases r) (simp add: andThen_def split: completion.splits)

lemma controlLoop_shape: "\<exists>L. controlLoop i cs p = p\<lparr>listeners := L\<rparr>"
proof (induction cs arbitrary: i p)
  case Nil
  have "p = p\<lparr>listeners := listeners p\<rparr>" by simp
  then show ?case by (metis controlLoop.simps(1))
next
  case (Cons c cs)
  let ?q = "if listensTo c then addListener (ControlInput i) (addListener (ControlBlur i) p) else p"
  obtain L0 where q: "?q = p\<lparr>listeners := L0\<rparr>"
    by (cases "listensTo c") (auto simp: addListener_alt intro: that [of "listeners p"])
  from Cons.IH [of "Suc i" ?q] obtain L where "controlLoop (Suc i) cs ?q = ?q\<lparr>listeners := L\<rparr>"
    by blast
  with q have "controlLoop i (c # cs) p = p\<lparr>listeners := L\<rparr>" by simp
  then show ?case by blast
qed

lemma setupFormHandling_shape: "\<exists>L. setupFormHandling p = p\<lparr>listeners := L\<rparr>"
proof (cases "el_contactForm p")
  case None
  have "p = p\<lparr>listeners := listeners p\<rparr>" by simp
  with None show ?thesis unfolding setupFormHandling_def by (metis option.simps(4))
next
  case (Some f)
  obtain L0 where q: "addListener FormSubmit p = p\<lparr>listeners := L0\<rparr>"
    by (simp add: addListener_alt)
  from controlLoop_shape [of 0 "controls f" "addListener FormSubmit p"] obtain L where
    "controlLoop 0 (controls f) (addListener FormSubmit p) = (addListener FormSubmit p)\<lparr>listeners := L\<rparr>"
    by blast
  with q Some have "setupFormHandling p = p\<lparr>listeners := L\<rparr>"
    by (simp add: setupFormHandling_def)
  then show ?thesis by blast
qed

lemma hideLoadingScreen_shape: "\<exists>T. hideLoadingScreen p = p\<lparr>timers := T\<rparr>"
proof (cases "el_loading p \<noteq> None")
  case True
  then have "hideLoadingScreen p = p\<lparr>timers := timers p @ [HideLoading]\<rparr>"
    by (simp add: hideLoadingScreen_def)
  then show ?thesis by blast
next
  case False
  then have "hideLoadingScreen p = p\<lparr>timers := timers p\<rparr>"
    by (simp add: hideLoadingScreen_def)
  then show ?thesis by blast
qed

lemma setupScrollEffects_shape: "\<exists>A. snd (setupScrollEffects p) = p\<lparr>animateElements := A\<rparr>"
proof -
  have "snd (setupScrollEffects p) = p\<lparr>animateElements := animateElements p\<rparr> \<or>
        snd (setupScrollEffects p) = p\<lparr>animateElements := map hideForReveal (animateElements p)\<rparr>"
    by (simp add: setupScrollEffects_def split: option.splits)
  then show ?thesis by blast
qed

lemma setupThemeToggle_shape:
  "\<exists>L. setupThemeToggle p =
     (Returned,
      if el_themeToggle p
      then p\<lparr>dataTheme := Some (initialTheme p),
             localStorage := (localStorage p)(str ''theme'' \<mapsto> initialTheme p),
             storageWrites := storageWrites p @ [(str ''theme'', initialTheme p)],
             listeners := L\<rparr>
      else p\<lparr>listeners := L\<rparr>)"
proof (cases "el_themeToggle p")
  case True
  then show ?thesis
    by (intro exI [of _ "if ThemeToggleClick \<in> set (listeners p) then listeners p
            else listeners p @ [ThemeToggleClick]"])
       (simp add: setupThemeToggle_def addListener_alt setTheme_def)
next
  case False
  then show ?thesis
    by (intro exI [of _ "listeners p"]) (simp add: setupThemeToggle_def)
qed

lemma initialTheme_cong:
  "localStorage q = localStorage p \<Longrightarrow> matchMedia q = matchMedia p \<Longrightarrow> initialTheme q = initialTheme p"
  by (simp add: initialTheme_def systemPrefersDark_def)

lemma init_shape:
  assumes "\<not> isInitialized p"
  shows "\<exists>t A L T. snd (init p) =
     (if themeToggle p \<and> linksOk p
      then p\<lparr>isInitialized := True, cached := True, ticking := t, animateElements := A,
             dataTheme := Some (initialTheme p),
             localStorage := (localStorage p)(str ''theme'' \<mapsto> initialTheme p),
             storageWrites := storageWrites p @ [(str ''theme'', initialTheme p)],
             listeners := L, timers := T\<rparr>
      else p\<lparr>isInitialized := True, cached := True, ticking := t, animateElements := A,
             listeners := L, timers := T\<rparr>)"
proof -
  let ?p0 = "cacheElements (p\<lparr>isInitialized := True\<rparr>)"
  obtain t L1 where s1: "snd (setupNavigation ?p0) = ?p0\<lparr>ticking := t, listeners := L1\<rparr>"
    using setupNavigation_snd by blast
  let ?p1 = "?p0\<lparr>ticking := t, listeners := L1\<rparr>"
  have f1: "fst (setupNavigation ?p0) = (if linksOk p then Returned else Threw TypeError)"
    by (simp add: setupNavigation_fst linksOk_def cacheElements_def)
  show ?thesis
  proof (cases "linksOk p")
    case False
    with f1 s1 assms have "snd (init p) = ?p1"
      by (simp add: init_def andThen_snd)
    with False show ?thesis
      apply (rule_tac x = t in exI)
      apply (rule_tac x = "animateElements p" in exI)
      apply (rule_tac x = L1 in exI)
      apply (rule_tac x = "timers p" in exI)
      apply (simp add: cacheElements_def)
      done
  next
    case True
    obtain L2 where s2: "setupThemeToggle ?p1 =
     (Returned,
      if el_themeToggle ?p1
      then ?p1\<lparr>dataTheme := Some (initialTheme ?p1),
             localStorage := (localStorage ?p1)(str ''theme'' \<mapsto> initialTheme ?p1),
             storageWrites := storageWrites ?p1 @ [(str ''theme'', initialTheme ?p1)],
             listeners := L2\<rparr>
      else ?p1\<lparr>listeners := L2\<rparr>)"
      using setupThemeToggle_shape by blast
    have it: "initialTheme ?p1 = initialTheme p"
      by (rule initialTheme_cong) (simp_all add: cacheElements_def)
    have et: "el_themeToggle ?p1 = themeToggle p"
      by (simp add: el_themeToggle_def cacheElements_def)
    let ?p2 = "snd (setupThemeToggle ?p1)"
    obtain A where s3: "snd (setupScrollEffects ?p2) = ?p2\<lparr>animateElements := A\<rparr>"
      using setupScrollEffects_shape by blast
    let ?p3 = "?p2\<lparr>animateElements := A\<rparr>"
    obtain L3 where s4: "setupFormHandling ?p3 = ?p3\<lparr>listeners := L3\<rparr>"
      using setupFormHandling_shape by blast
    obtain T where s5: "hideLoadingScreen (?p3\<lparr>listeners := L3\<rparr>) = ?p3\<lparr>listeners := L3, timers := T\<rparr>"
      using hideLoadingScreen_shape [of "?p3\<lparr>listeners := L3\<rparr>"] by auto
    have "snd (init p) = ?p3 \<or> snd (init p) = ?p3\<lparr>listeners := L3, timers := T\<rparr>"
      using assms f1 s1 True s3 s4 s5
      by (simp add: init_def andThen_snd s2)
    then show ?thesis
    proof
      assume "snd (init p) = ?p3"
      with True show ?thesis
        apply (rule_tac x = t in exI)
        apply (rule_tac x = A in exI)
        apply (rule_tac x = L2 in exI)
        apply (rule_tac x = "timers p" in exI)
        apply (simp add: s2 et it)
        apply (simp add: cacheElements_def)
        done
    next
      assume "snd (init p) = ?p3\<lparr>listeners := L3, timers := T\<rparr>"
      with True show ?thesis
        apply (rule_tac x = t in exI)
        apply (rule_tac x = A in exI)
        apply (rule_tac x = L3 in exI)
        apply (rule_tac x = T in exI)
        apply (simp add: s2 et it)
        apply (simp add: cacheElements_def)
        done
    qed
  qed
qed

lemma init_fields:
  assumes "\<not> isInitialized p"
  shows "dataTheme (snd (init p)) =
           (if themeToggle p \<and> linksOk p then Some (initialTheme p) else dataTheme p)"
    and "storageWrites (snd (init p)) =
           storageWrites p @ (if themeToggle p \<and> linksOk p then [(str ''theme'', initialTheme p)] else [])"
    and "localStorage (snd (init p)) =
           (if themeToggle p \<and> linksOk p then (localStorage p)(str ''theme'' \<mapsto> initialTheme p)
            else localStorage p)"
    and "isInitialized (snd (init p))"
    and "themeToggle (snd (init p)) = themeToggle p"
    and "navLinks (snd (init p)) = navLinks p"
    and "matchMedia (snd (init p)) = matchMedia p"
    and "navMenu (snd (init p)) = navMenu p"
    and "navToggle (snd (init p)) = navToggle p"
    and "bodyOverflow (snd (init p)) = bodyOverflow p"
    and "notifications (snd (init p)) = notifications p"
    and "contactForm (snd (init p)) = contactForm p"
    and "cached (snd (init p))"
proof -
  from init_shape [OF assms] obtain t A L T where
    "snd (init p) =
     (if themeToggle p \<and> linksOk p
      then p\<lparr>isInitialized := True, cached := True, ticking := t, animateElements := A,
             dataTheme := Some (initialTheme p),
             localStorage := (localStorage p)(str ''theme'' \<mapsto> initialTheme p),
             storageWrites := storageWrites p @ [(str ''theme'', initialTheme p)],
             listeners := L, timers := T\<rparr>
      else p\<lparr>isInitialized := True, cached := True, ticking := t, animateElements := A,
             listeners := L, timers := T\<rparr>)"
    by blast
  then show "dataTheme (snd (init p)) =
           (if themeToggle p \<and> linksOk p then Some (initialTheme p) else dataTheme p)"
    and "storageWrites (snd (init p)) =
           storageWrites p @ (if themeToggle p \<and> linksOk p then [(str ''theme'', initialTheme p)] else [])"
    and "localStorage (snd (init p)) =
           (if themeToggle p \<and> linksOk p then (localStorage p)(str ''theme'' \<mapsto> initialTheme p)
            else localStorage p)"
    and "isInitialized (snd (init p))"
    and "themeToggle (snd (init p)) = themeToggle p"
    and "navLinks (snd (init p)) = navLinks p"
    and "matchMedia (snd (init p)) = matchMedia p"
    and "navMenu (snd (init p)) = navMenu p"
    and "navToggle (snd (init p)) = navToggle p"
    and "bodyOverflow (snd (init p)) = bodyOverflow p"
    and "notifications (snd (init p)) = notifications p"
    and "contactForm (snd (init p)) = contactForm p"
    and "cached (snd (init p))"
    by simp_all
qed

lemma init_again: "isInitialized p \<Longrightarrow> init p = (Returned, p)"
  by (simp add: init_def)

lemma initialTheme_cases:
  "initialTheme p =
     (case localStorage p (str ''theme'') of
        None \<Rightarrow> if systemPrefersDark p then str ''dark'' else str ''light''
      | Some s \<Rightarrow> if s \<noteq> [] then s else if systemPrefersDark p then str ''dark'' else str ''light'')"
  by (simp add: initialTheme_def Let_def split: option.splits)

text \<open>
  Claim C7, for a page with the theme toggle control whose navigation links all carry an
  \<^verbatim>\<open>href\<close>: the theme applied at startup is the persisted value if there is one and
  it is not the empty string, else \<^verbatim>\<open>dark\<close> when the system prefers dark, else
  \<^verbatim>\<open>light\<close>; it is one of the two themes whenever the persisted value is absent,
  empty or one of the two themes. Without the theme toggle control the theme attribute
  is left as it is.
\<close>

theorem init_theme_resolution:
  "(\<not> isInitialized p \<and> themeToggle p \<and> linksOk p \<longrightarrow>
      (\<forall>s. localStorage p (str ''theme'') = Some s \<and> s \<noteq> [] \<longrightarrow>
           dataTheme (snd (init p)) = Some s) \<and>
      ((localStorage p (str ''theme'') = None \<or> localStorage p (str ''theme'') = Some []) \<and>
         systemPrefersDark p \<longrightarrow> dataTheme (snd (init p)) = Some (str ''dark'')) \<and>
      ((localStorage p (str ''theme'') = None \<or> localStorage p (str ''theme'') = Some []) \<and>
         \<not> systemPrefersDark p \<longrightarrow> dataTheme (snd (init p)) = Some (str ''light'')) \<and>
      (localStorage p (str ''theme'') \<in> {None, Some [], Some (str ''light''), Some (str ''dark'')} \<longrightarrow>
         dataTheme (snd (init p)) \<in> {Some (str ''light''), Some (str ''dark'')}))
   \<and> (\<not> isInitialized p \<and> \<not> themeToggle p \<longrightarrow> dataTheme (snd (init p)) = dataTheme p)"
  by (auto simp: init_fields(1) initialTheme_cases)

text \<open>
  Startup with nothing persisted on a system that prefers dark.
\<close>

theorem init_theme_resolution_witness:
  "(\<not> isInitialized freshDarkPage \<and> themeToggle freshDarkPage \<and> linksOk freshDarkPage) \<and>
   localStorage freshDarkPage (str ''theme'') = None \<and> systemPrefersDark freshDarkPage \<and>
   dataTheme (snd (init freshDarkPage)) = Some (str ''dark'')"
proof -
  have h: "\<not> isInitialized freshDarkPage \<and> themeToggle freshDarkPage \<and> linksOk freshDarkPage"
    by (simp add: freshDarkPage_def blankPage_def linksOk_def)
  have s: "localStorage freshDarkPage (str ''theme'') = None \<and> systemPrefersDark freshDarkPage"
    by (simp add: freshDarkPage_def blankPage_def systemPrefersDark_def)
  with h init_theme_resolution [of freshDarkPage] show ?thesis by blast
qed

text \<open>
  Claim C7 as it is written fails where it says that the applied theme is always one
  of the two: with \<^verbatim>\<open>blue\<close> persisted, \<^verbatim>\<open>blue\<close> is applied.
\<close>

theorem init_theme_resolution_counterexample:
  "\<not> isInitialized bluePage \<and> themeToggle bluePage \<and>
   localStorage bluePage (str ''theme'') = Some (str ''blue'') \<and>
   dataTheme (snd (init bluePage)) = Some (str ''blue'') \<and>
   str ''blue'' \<noteq> str ''light'' \<and> str ''blue'' \<noteq> str ''dark''"
proof -
  have h: "\<not> isInitialized bluePage" "themeToggle bluePage \<and> linksOk bluePage"
    "localStorage bluePage (str ''theme'') = Some (str ''blue'')"
    by (simp_all add: bluePage_def blankPage_def linksOk_def)
  have "initialTheme bluePage = str ''blue''"
    by (simp add: initialTheme_cases h(3)) (simp add: str_def)
  with h show ?thesis
    by (simp add: init_fields(1)) (simp add: str_def)
qed

lemma sameTheme_refl [simp]: "sameTheme p p"
  by (simp add: sameTheme_def)

lemma sameTheme_trans: "sameTheme p q \<Longrightarrow> sameTheme q r \<Longrightarrow> sameTheme p r"
  by (simp add: sameTheme_def)

lemma sameTheme_toggleMobileMenu: "sameTheme p (snd (toggleMobileMenu p))"
  by (simp add: sameTheme_def toggleMobileMenu_def Let_def split: option.splits)

lemma sameTheme_handleSmoothScroll: "sameTheme p (snd (handleSmoothScroll h p))"
proof -
  have "sameTheme (p\<lparr>scrollTo := x\<rparr>) (snd (toggleMobileMenu (p\<lparr>scrollTo := x\<rparr>)))" for x
    by (rule sameTheme_toggleMobileMenu)
  then have "sameTheme p (snd (toggleMobileMenu (p\<lparr>scrollTo := x\<rparr>)))" for x
    by (simp add: sameTheme_def)
  then show ?thesis
    by (simp add: handleSmoothScroll_def Let_def split: query_result.splits) (simp add: sameTheme_def)
qed

lemma sameTheme_showNotification: "sameTheme p (showNotification m t p)"
  by (simp add: sameTheme_def showNotification_def appendNotification_def removeExisting_def Let_def)

lemma sameTheme_onControl: "sameTheme p (onControl i g p)"
  by (simp add: sameTheme_def onControl_def split: option.splits)

lemma sameTheme_begin: "sameTheme p (snd (handleFormSubmit_begin p))"
proof -
  have "sameTheme (p\<lparr>contactForm := x\<rparr>) (showNotification m t (p\<lparr>contactForm := x\<rparr>))" for x m t
    by (rule sameTheme_showNotification)
  then have "sameTheme p (showNotification m t (p\<lparr>contactForm := x\<rparr>))" for x m t
    by (simp add: sameTheme_def)
  then show ?thesis
    by (simp add: handleFormSubmit_begin_def Let_def split: option.splits) (simp add: sameTheme_def)
qed

lemma sameTheme_afterFetch: "afterFetch outcome p = Inr q \<Longrightarrow> sameTheme p q"
  using sameTheme_showNotification [of p successMessage "str ''success''"]
  by (auto simp: afterFetch_def sameTheme_def Let_def
           split: fetch_outcome.splits body.splits sum.splits if_splits)

lemma sameTheme_restoreButton: "sameTheme p (restoreButton t p)"
  by (simp add: sameTheme_def restoreButton_def)

lemma sameTheme_resume: "sameTheme p (snd (handleFormSubmit_resume t outcome p))"
proof (cases "afterFetch outcome p")
  case (Inl e)
  then have "snd (handleFormSubmit_resume t outcome p) =
      restoreButton t (showNotification failureMessage (str ''error'') p)"
    by (simp add: handleFormSubmit_resume_def)
  then show ?thesis
    using sameTheme_trans [OF sameTheme_showNotification sameTheme_restoreButton] by simp
next
  case (Inr q)
  then have "snd (handleFormSubmit_resume t outcome p) = restoreButton t q"
    by (simp add: handleFormSubmit_resume_def)
  then show ?thesis
    using sameTheme_trans [OF sameTheme_afterFetch [OF Inr] sameTheme_restoreButton] by simp
qed

lemma sameTheme_runTask: "sameTheme p (runTask k p)"
  by (cases k)
     (simp_all add: sameTheme_def setTransform_def updateHeaderOnScroll_def Let_def
        split: option.splits)

lemma sameTheme_drop [simp]:
  "sameTheme p (q\<lparr>pending := x\<rparr>) = sameTheme p q"
  "sameTheme p (q\<lparr>timers := y\<rparr>) = sameTheme p q"
  "sameTheme (p\<lparr>pending := x\<rparr>) q = sameTheme p q"
  "sameTheme (p\<lparr>timers := y\<rparr>) q = sameTheme p q"
  by (simp_all add: sameTheme_def)

lemma sameTheme_step:
  assumes "e \<noteq> Init" "e \<noteq> ClickThemeToggle"
  shows "sameTheme p (step e p)"
proof (cases e)
  case Init
  with assms show ?thesis by simp
next
  case ClickNavToggle
  then show ?thesis by (simp add: sameTheme_toggleMobileMenu)
next
  case (ClickNavLink i)
  then show ?thesis by (simp add: sameTheme_handleSmoothScroll split: option.splits)
next
  case (KeyDown key)
  then show ?thesis by (simp add: sameTheme_toggleMobileMenu)
next
  case (Scroll y)
  then show ?thesis by (simp add: sameTheme_def Let_def)
next
  case ClickThemeToggle
  with assms show ?thesis by simp
next
  case (Blur i)
  then show ?thesis by (simp add: sameTheme_onControl)
next
  case (Input i v)
  then show ?thesis
    using sameTheme_trans [OF sameTheme_onControl sameTheme_onControl]
    by (simp add: Let_def sameTheme_onControl)
next
  case Submit
  then show ?thesis by (simp add: sameTheme_begin)
next
  case (Answer k outcome)
  then show ?thesis
    using sameTheme_resume [of "p\<lparr>pending := dropAt k (pending p)\<rparr>" "pending p ! k" outcome]
    by simp
next
  case (Timer k)
  then show ?thesis
    using sameTheme_runTask [of "p\<lparr>timers := dropAt k (timers p)\<rparr>" "timers p ! k"]
    by simp
next
  case (Intersect i b)
  then show ?thesis by (simp add: sameTheme_def)
qed

lemma run_Nil: "run [] p = p"
  by (simp add: run_def)

lemma run_Cons: "run (e # evs) p = run evs (step e p)"
  by (simp add: run_def)

lemma run_append: "run (evs @ evs') p = run evs' (run evs p)"
  by (simp add: run_def)

lemma sameTheme_run_initialized:
  "isInitialized p \<Longrightarrow> ClickThemeToggle \<notin> set evs \<Longrightarrow> sameTheme p (run evs p)"
proof (induction evs arbitrary: p)
  case Nil
  show ?case by (simp add: run_Nil)
next
  case (Cons e evs)
  have s: "sameTheme p (step e p)"
  proof (cases "e = Init")
    case True
    with Cons.prems show ?thesis by (simp add: init_again)
  next
    case False
    with Cons.prems show ?thesis by (intro sameTheme_step) auto
  qed
  then have "isInitialized (step e p)" using Cons.prems by (simp add: sameTheme_def)
  with Cons have "sameTheme (step e p) (run evs (step e p))" by simp
  with s show ?case by (simp add: run_Cons sameTheme_trans [of p "step e p"])
qed

lemma initialTheme_sameTheme: "sameTheme p q \<Longrightarrow> initialTheme q = initialTheme p"
  by (rule initialTheme_cong) (simp_all add: sameTheme_def)

lemma run_after_init:
  assumes "\<not> isInitialized p" "ClickThemeToggle \<notin> set evs"
  shows "storageWrites (run (Init # evs) p) =
           storageWrites p @
             (if themeToggle p \<and> linksOk p then [(str ''theme'', initialTheme p)] else [])"
    and "localStorage (run (Init # evs) p) =
           (if themeToggle p \<and> linksOk p then (localStorage p)(str ''theme'' \<mapsto> initialTheme p)
            else localStorage p)"
proof -
  let ?q = "snd (init p)"
  from assms(1) have q: "isInitialized ?q" by (rule init_fields(4))
  from sameTheme_run_initialized [OF q assms(2)]
  have r: "storageWrites (run evs ?q) = storageWrites ?q"
    "localStorage (run evs ?q) = localStorage ?q"
    by (simp_all add: sameTheme_def)
  have c: "run (Init # evs) p = run evs ?q" by (simp add: run_Cons)
  show "storageWrites (run (Init # evs) p) =
           storageWrites p @
             (if themeToggle p \<and> linksOk p then [(str ''theme'', initialTheme p)] else [])"
    unfolding c r(1) by (rule init_fields(2) [OF assms(1)])
  show "localStorage (run (Init # evs) p) =
           (if themeToggle p \<and> linksOk p then (localStorage p)(str ''theme'' \<mapsto> initialTheme p)
            else localStorage p)"
    unfolding c r(2) by (rule init_fields(3) [OF assms(1)])
qed

lemma initialTheme_saved:
  "localStorage p (str ''theme'') = Some s \<Longrightarrow> s \<noteq> [] \<Longrightarrow> initialTheme p = s"
  by (simp add: initialTheme_cases)

lemma storage_run:
  assumes "ClickThemeToggle \<notin> set evs"
  shows "storageWrites (run evs p) =
       storageWrites p @
         (if Init \<in> set evs \<and> \<not> isInitialized p \<and> themeToggle p \<and> linksOk p
          then [(str ''theme'', initialTheme p)] else [])"
    and "localStorage (run evs p) =
         (if Init \<in> set evs \<and> \<not> isInitialized p \<and> themeToggle p \<and> linksOk p
          then (localStorage p)(str ''theme'' \<mapsto> initialTheme p) else localStorage p)"
  using assms
proof (induction evs arbitrary: p)
  case Nil
  {
    case 1
    show ?case by (simp add: run_Nil)
  next
    case 2
    show ?case by (simp add: run_Nil)
  }
next
  case (Cons e evs)
  {
    case 1
    then have nt: "ClickThemeToggle \<notin> set evs" and ne: "e \<noteq> ClickThemeToggle" by auto
    show ?case
    proof (cases "e = Init")
      case False
      from False ne have st: "sameTheme p (step e p)" by (rule sameTheme_step)
      then have it: "initialTheme (step e p) = initialTheme p" by (rule initialTheme_sameTheme)
      from st have f: "storageWrites (step e p) = storageWrites p"
        "isInitialized (step e p) = isInitialized p" "themeToggle (step e p) = themeToggle p"
        "linksOk (step e p) = linksOk p"
        by (simp_all add: sameTheme_def linksOk_def)
      from False have m: "Init \<in> set (e # evs) \<longleftrightarrow> Init \<in> set evs" by auto
      show ?thesis
        unfolding run_Cons m Cons.IH(1) [OF nt] f it ..
    next
      case True
      show ?thesis
      proof (cases "isInitialized p")
        case True
        with \<open>e = Init\<close> have "step e p = p" by (simp add: init_again)
        with True show ?thesis
          unfolding run_Cons Cons.IH(1) [OF nt] by simp
      next
        case False
        with run_after_init(1) [OF False nt] \<open>e = Init\<close> show ?thesis by simp
      qed
    qed
  next
    case 2
    then have nt: "ClickThemeToggle \<notin> set evs" and ne: "e \<noteq> ClickThemeToggle" by auto
    show ?case
    proof (cases "e = Init")
      case False
      from False ne have st: "sameTheme p (step e p)" by (rule sameTheme_step)
      then have it: "initialTheme (step e p) = initialTheme p" by (rule initialTheme_sameTheme)
      from st have f: "localStorage (step e p) = localStorage p"
        "isInitialized (step e p) = isInitialized p" "themeToggle (step e p) = themeToggle p"
        "linksOk (step e p) = linksOk p"
        by (simp_all add: sameTheme_def linksOk_def)
      from False have m: "Init \<in> set (e # evs) \<longleftrightarrow> Init \<in> set evs" by auto
      show ?thesis
        unfolding run_Cons m Cons.IH(2) [OF nt] f it ..
    next
      case True
      show ?thesis
      proof (cases "isInitialized p")
        case True
        with \<open>e = Init\<close> have "step e p = p" by (simp add: init_again)
        with True show ?thesis
          unfolding run_Cons Cons.IH(2) [OF nt] by simp
      next
        case False
        with run_after_init(2) [OF False nt] \<open>e = Init\<close> show ?thesis by simp
      qed
    qed
  }
qed

text \<open>
  Claim C6, with the write that initialisation makes. In an execution without a click
  on the theme toggle, \<^verbatim>\<open>localStorage.setItem\<close> is called at most once: by the first
  initialisation, on a page with the theme toggle control whose navigation links all
  carry an \<^verbatim>\<open>href\<close>, with the resolved initial theme. No other handler writes;
  without initialisation or without the control the storage stays as it is, and so
  it does when a non-empty theme is already persisted, which is written back unchanged.
\<close>

theorem storage_written_only_by_theme:
  "ClickThemeToggle \<notin> set evs \<longrightarrow>
     storageWrites (run evs p) =
       storageWrites p @
         (if Init \<in> set evs \<and> \<not> isInitialized p \<and> themeToggle p \<and> linksOk p
          then [(str ''theme'', initialTheme p)] else []) \<and>
     (Init \<notin> set evs \<or> \<not> themeToggle p \<longrightarrow> localStorage (run evs p) = localStorage p) \<and>
     (\<forall>s. localStorage p (str ''theme'') = Some s \<and> s \<noteq> [] \<longrightarrow>
          localStorage (run evs p) = localStorage p)"
proof (intro impI conjI allI)
  assume nt: "ClickThemeToggle \<notin> set evs"
  show "storageWrites (run evs p) =
       storageWrites p @
         (if Init \<in> set evs \<and> \<not> isInitialized p \<and> themeToggle p \<and> linksOk p
          then [(str ''theme'', initialTheme p)] else [])"
    by (rule storage_run(1) [OF nt])
  show "localStorage (run evs p) = localStorage p" if "Init \<notin> set evs \<or> \<not> themeToggle p"
    using that by (auto simp: storage_run(2) [OF nt])
  show "localStorage (run evs p) = localStorage p"
    if "localStorage p (str ''theme'') = Some s \<and> s \<noteq> []" for s
  proof -
    from that have "initialTheme p = s" by (simp add: initialTheme_saved)
    moreover from that have "(localStorage p)(str ''theme'' \<mapsto> s) = localStorage p"
      by (simp add: fun_upd_idem)
    ultimately show ?thesis by (simp add: storage_run(2) [OF nt])
  qed
qed

text \<open>
  An execution on a page without the theme toggle control.
\<close>

theorem storage_written_only_by_theme_witness:
  "ClickThemeToggle \<notin> set [Init, KeyDown (str ''Escape''), Submit] \<and>
   storageWrites (run [Init, KeyDown (str ''Escape''), Submit] blankPage) = []"
proof -
  have h: "ClickThemeToggle \<notin> set [Init, KeyDown (str ''Escape''), Submit]" by simp
  have "\<not> themeToggle blankPage" "storageWrites blankPage = []"
    by (simp_all add: blankPage_def)
  with h storage_written_only_by_theme [of "[Init, KeyDown (str ''Escape''), Submit]" blankPage]
  show ?thesis by (simp del: set_simps)
qed

text \<open>
  Claim C6 as it is written fails: on a page with the theme toggle control and nothing
  persisted, initialisation alone, with no click on the toggle, writes the key
  \<^verbatim>\<open>theme\<close>.
\<close>

theorem init_writes_storage_counterexample:
  "ClickThemeToggle \<notin> set [Init] \<and>
   storageWrites togglePage = [] \<and> localStorage togglePage (str ''theme'') = None \<and>
   storageWrites (run [Init] togglePage) = [(str ''theme'', str ''light'')] \<and>
   localStorage (run [Init] togglePage) (str ''theme'') = Some (str ''light'')"
proof -
  have h: "\<not> isInitialized togglePage" "themeToggle togglePage \<and> linksOk togglePage"
    "storageWrites togglePage = []" "localStorage togglePage (str ''theme'') = None"
    by (simp_all add: togglePage_def blankPage_def linksOk_def)
  have "initialTheme togglePage = str ''light''"
    by (simp add: initialTheme_cases h(4)) (simp add: togglePage_def blankPage_def systemPrefersDark_def)
  with h show ?thesis
    by (simp add: run_Cons run_Nil init_fields)
qed

subsection \<open>The mobile menu\<close>

lemma active_toggle: "tok \<in> set (classList_toggle tok cl) \<longleftrightarrow> tok \<notin> set cl"
  by (simp add: classList_toggle_def)

lemma menuActive_menuOpen: "menuActive p \<Longrightarrow> menuOpen p"
  by (simp add: menuActive_def menuOpen_def el_navMenu_def split: if_splits)

lemma toggleMobileMenu_both:
  assumes "cached p" "navMenu p = Some menu" "navToggle p = Some toggle"
  shows "toggleMobileMenu p =
     (Returned,
      p\<lparr>navMenu := Some (classList_toggle (str ''active'') menu),
        navToggle := Some (classList_toggle (str ''active'') toggle),
        bodyOverflow := (if str ''active'' \<in> set menu then [] else str ''hidden'')\<rparr>)"
  using assms
  by (simp add: toggleMobileMenu_def el_navMenu_def el_navToggle_def menuActive_def Let_def
        active_toggle)

lemma hidden_neq_Nil: "str ''hidden'' \<noteq> []"
  by (simp add: str_def)

lemma lockStep_toggleMobileMenu:
  assumes "cached p" "navMenu p \<noteq> None" "navToggle p \<noteq> None"
  shows "lockStep (snd (toggleMobileMenu p))"
    and "menuOpen (snd (toggleMobileMenu p)) \<longleftrightarrow> \<not> menuOpen p"
    and "navToggle (snd (toggleMobileMenu p)) \<noteq> None"
proof -
  from assms obtain menu toggle where mt: "navMenu p = Some menu" "navToggle p = Some toggle"
    by auto
  note r = toggleMobileMenu_both [OF assms(1) mt]
  show "lockStep (snd (toggleMobileMenu p))"
    using hidden_neq_Nil
    by (auto simp: r lockStep_def menuOpen_def scrollLocked_def active_toggle)
  show "menuOpen (snd (toggleMobileMenu p)) \<longleftrightarrow> \<not> menuOpen p"
    by (simp add: r menuOpen_def mt active_toggle)
  show "navToggle (snd (toggleMobileMenu p)) \<noteq> None"
    by (simp add: r)
qed

lemma navInv_toggleMobileMenu:
  assumes "navInv p" "navToggle p \<noteq> None"
  shows "navInv (snd (toggleMobileMenu p))"
proof (cases "cached p \<and> navMenu p \<noteq> None")
  case True
  with assms(2) lockStep_toggleMobileMenu [of p] show ?thesis
    by (auto simp: navInv_def)
next
  case False
  then have "toggleMobileMenu p = (Returned, p)"
    by (auto simp: toggleMobileMenu_def el_navMenu_def)
  with assms(1) show ?thesis by simp
qed

lemma navInv_cong: "sameNav p q \<Longrightarrow> navInv p \<Longrightarrow> navInv q"
  by (auto simp: sameNav_def navInv_def lockStep_def menuOpen_def scrollLocked_def)

lemma navInv_handleSmoothScroll:
  assumes "navInv p"
  shows "navInv (snd (handleSmoothScroll h p))"
proof (cases "querySelector p h")
  case InvalidSelector
  with assms show ?thesis by (simp add: handleSmoothScroll_def)
next
  case NoMatch
  with assms show ?thesis by (simp add: handleSmoothScroll_def)
next
  case (Match offsetTop)
  let ?p1 = "p\<lparr>scrollTo := Some (offsetTop - (case el_header p of Some h \<Rightarrow> offsetHeight h | None \<Rightarrow> 80))\<rparr>"
  have i1: "navInv ?p1"
    by (rule navInv_cong [OF _ assms]) (simp add: sameNav_def)
  show ?thesis
  proof (cases "menuActive ?p1")
    case True
    then have "menuOpen ?p1" by (rule menuActive_menuOpen)
    with i1 have "navToggle ?p1 \<noteq> None" by (auto simp: navInv_def)
    with i1 have "navInv (snd (toggleMobileMenu ?p1))" by (rule navInv_toggleMobileMenu)
    with True Match show ?thesis by (simp add: handleSmoothScroll_def Let_def)
  next
    case False
    with i1 Match show ?thesis by (simp add: handleSmoothScroll_def Let_def)
  qed
qed

lemma sameNav_showNotification: "sameNav p (showNotification m t p)"
  by (simp add: sameNav_def showNotification_def appendNotification_def removeExisting_def Let_def)

lemma sameNav_onControl: "sameNav p (onControl i g p)"
  by (simp add: sameNav_def onControl_def split: option.splits)

lemma sameNav_refl [simp]: "sameNav p p"
  by (simp add: sameNav_def)

lemma sameNav_trans: "sameNav p q \<Longrightarrow> sameNav q r \<Longrightarrow> sameNav p r"
  by (simp add: sameNav_def)

lemma sameNav_begin: "sameNav p (snd (handleFormSubmit_begin p))"
proof -
  have "sameNav (p\<lparr>contactForm := x\<rparr>) (showNotification m t (p\<lparr>contactForm := x\<rparr>))" for x m t
    by (rule sameNav_showNotification)
  then have "sameNav p (showNotification m t (p\<lparr>contactForm := x\<rparr>))" for x m t
    by (simp add: sameNav_def)
  then show ?thesis
    by (simp add: handleFormSubmit_begin_def Let_def split: option.splits) (simp add: sameNav_def)
qed

lemma sameNav_afterFetch: "afterFetch outcome p = Inr q \<Longrightarrow> sameNav p q"
  using sameNav_showNotification [of p successMessage "str ''success''"]
  by (auto simp: afterFetch_def sameNav_def Let_def
           split: fetch_outcome.splits body.splits sum.splits if_splits)

lemma sameNav_restoreButton: "sameNav p (restoreButton t p)"
  by (simp add: sameNav_def restoreButton_def)

lemma sameNav_resume: "sameNav p (snd (handleFormSubmit_resume t outcome p))"
proof (cases "afterFetch outcome p")
  case (Inl e)
  then have "snd (handleFormSubmit_resume t outcome p) =
      restoreButton t (showNotification failureMessage (str ''error'') p)"
    by (simp add: handleFormSubmit_resume_def)
  then show ?thesis
    using sameNav_trans [OF sameNav_showNotification sameNav_restoreButton] by simp
next
  case (Inr q)
  then have "snd (handleFormSubmit_resume t outcome p) = restoreButton t q"
    by (simp add: handleFormSubmit_resume_def)
  then show ?thesis
    using sameNav_trans [OF sameNav_afterFetch [OF Inr] sameNav_restoreButton] by simp
qed

lemma sameNav_runTask: "sameNav p (runTask k p)"
  by (cases k)
     (simp_all add: sameNav_def setTransform_def updateHeaderOnScroll_def Let_def
        split: option.splits)

lemma sameNav_init: "sameNav p (snd (init p))"
  by (cases "isInitialized p") (simp_all add: sameNav_def init_again init_fields)

lemma sameNav_drop [simp]:
  "sameNav (p\<lparr>pending := x\<rparr>) q = sameNav p q"
  "sameNav (p\<lparr>timers := y\<rparr>) q = sameNav p q"
  by (simp_all add: sameNav_def)

lemma navInv_step:
  assumes "navInv p"
  shows "navInv (step e p)"
proof (cases e)
  case Init
  then show ?thesis using navInv_cong [OF sameNav_init assms] by simp
next
  case ClickNavToggle
  with assms show ?thesis by (simp add: navInv_toggleMobileMenu)
next
  case (ClickNavLink i)
  with assms show ?thesis by (simp add: navInv_handleSmoothScroll split: option.splits)
next
  case (KeyDown key)
  show ?thesis
  proof (cases "key = str ''Escape'' \<and> menuActive p")
    case True
    then have "menuOpen p" by (simp add: menuActive_menuOpen)
    with assms have "navToggle p \<noteq> None" by (auto simp: navInv_def)
    with assms True KeyDown show ?thesis by (simp add: navInv_toggleMobileMenu)
  next
    case False
    with assms KeyDown show ?thesis by auto
  qed
next
  case (Scroll y)
  then show ?thesis by (intro navInv_cong [OF _ assms]) (simp add: sameNav_def Let_def)
next
  case ClickThemeToggle
  then show ?thesis
    by (intro navInv_cong [OF _ assms]) (simp add: sameNav_def toggleTheme_def setTheme_def Let_def)
next
  case (Blur i)
  then show ?thesis by (intro navInv_cong [OF _ assms]) (simp add: sameNav_onControl)
next
  case (Input i v)
  then show ?thesis
    using sameNav_trans [OF sameNav_onControl sameNav_onControl]
    by (intro navInv_cong [OF _ assms]) (simp add: Let_def sameNav_onControl)
next
  case Submit
  then show ?thesis by (intro navInv_cong [OF _ assms]) (simp add: sameNav_begin)
next
  case (Answer k outcome)
  then show ?thesis
    using sameNav_resume [of "p\<lparr>pending := dropAt k (pending p)\<rparr>" "pending p ! k" outcome]
    by (intro navInv_cong [OF _ assms]) simp
next
  case (Timer k)
  then show ?thesis
    using sameNav_runTask [of "p\<lparr>timers := dropAt k (timers p)\<rparr>" "timers p ! k"]
    by (intro navInv_cong [OF _ assms]) simp
next
  case (Intersect i b)
  then show ?thesis by (intro navInv_cong [OF _ assms]) (simp add: sameNav_def)
qed

lemma navInv_run: "navInv p \<Longrightarrow> navInv (run evs p)"
  by (induction evs arbitrary: p) (simp_all add: run_Nil run_Cons navInv_step)

text \<open>
  Claim C5. From a page on which the menu is closed and the body scrolls, every state
  that the events of the page lead to has the menu open exactly when the body's
  overflow is \<^verbatim>\<open>hidden\<close>. With the menu and its toggle control in the cache, a call of
  \<^verbatim>\<open>toggleMobileMenu\<close> returns and leaves the two in lock step whatever they were
  before; and from a state with the menu closed, the first call opens the menu and
  locks the scroll, the second closes the menu and leaves the scroll lock as it was
  before the first.
\<close>

theorem menu_lock_step:
  "(\<not> menuOpen p \<and> \<not> scrollLocked p \<longrightarrow> lockStep (run evs p)) \<and>
   (cached p \<and> navMenu p \<noteq> None \<and> navToggle p \<noteq> None \<longrightarrow>
      fst (toggleMobileMenu p) = Returned \<and> lockStep (snd (toggleMobileMenu p))) \<and>
   (cached p \<and> navMenu p \<noteq> None \<and> navToggle p \<noteq> None \<and> lockStep p \<and> \<not> menuOpen p \<longrightarrow>
      menuOpen (snd (toggleMobileMenu p)) \<and>
      scrollLocked (snd (toggleMobileMenu p)) \<and>
      \<not> menuOpen (snd (toggleMobileMenu (snd (toggleMobileMenu p)))) \<and>
      scrollLocked (snd (toggleMobileMenu (snd (toggleMobileMenu p)))) = scrollLocked p)"
proof (intro conjI impI)
  assume "\<not> menuOpen p \<and> \<not> scrollLocked p"
  then have "navInv p" by (simp add: navInv_def lockStep_def)
  then have "navInv (run evs p)" by (rule navInv_run)
  then show "lockStep (run evs p)" by (simp add: navInv_def)
next
  assume a: "cached p \<and> navMenu p \<noteq> None \<and> navToggle p \<noteq> None"
  then show "lockStep (snd (toggleMobileMenu p))"
    by (simp add: lockStep_toggleMobileMenu)
  from a show "fst (toggleMobileMenu p) = Returned"
    by (auto simp: toggleMobileMenu_both)
next
  assume a: "cached p \<and> navMenu p \<noteq> None \<and> navToggle p \<noteq> None \<and> lockStep p \<and> \<not> menuOpen p"
  let ?q = "snd (toggleMobileMenu p)"
  from a have q: "lockStep ?q" "menuOpen ?q" "navToggle ?q \<noteq> None"
    by (simp_all add: lockStep_toggleMobileMenu)
  from q(2) have m: "navMenu ?q \<noteq> None" by (auto simp: menuOpen_def split: option.splits)
  from a have c: "cached ?q" by (auto simp: toggleMobileMenu_both)
  from c m q(3) have r: "lockStep (snd (toggleMobileMenu ?q))" "\<not> menuOpen (snd (toggleMobileMenu ?q))"
    using q(2) by (simp_all add: lockStep_toggleMobileMenu)
  show "menuOpen ?q" by (rule q(2))
  from q show "scrollLocked ?q" by (simp add: lockStep_def)
  show "\<not> menuOpen (snd (toggleMobileMenu ?q))" by (rule r(2))
  from r a show "scrollLocked (snd (toggleMobileMenu ?q)) = scrollLocked p"
    by (auto simp: lockStep_def)
qed

text \<open>
  A page with the menu and its toggle control: initialisation, a click on the toggle
  and the Escape key; then opening and closing after initialisation.
\<close>

theorem menu_lock_step_witness:
  "(\<not> menuOpen navPage \<and> \<not> scrollLocked navPage) \<and>
   lockStep (run [Init, ClickNavToggle, KeyDown (str ''Escape'')] navPage) \<and>
   (cached (snd (init navPage)) \<and> navMenu (snd (init navPage)) \<noteq> None \<and>
    navToggle (snd (init navPage)) \<noteq> None \<and> lockStep (snd (init navPage)) \<and>
    \<not> menuOpen (snd (init navPage))) \<and>
   scrollLocked (snd (toggleMobileMenu (snd (init navPage)))) \<and>
   \<not> scrollLocked (snd (toggleMobileMenu (snd (toggleMobileMenu (snd (init navPage))))))"
proof -
  have i: "\<not> isInitialized navPage" by (simp add: navPage_def blankPage_def)
  have h1: "\<not> menuOpen navPage \<and> \<not> scrollLocked navPage"
    by (simp add: navPage_def blankPage_def menuOpen_def scrollLocked_def) (simp add: str_def)
  let ?q = "snd (init navPage)"
  have f: "navMenu ?q = navMenu navPage" "navToggle ?q = navToggle navPage"
    "bodyOverflow ?q = bodyOverflow navPage" "cached ?q"
    using i by (simp_all add: init_fields)
  have m: "menuOpen ?q = menuOpen navPage" "scrollLocked ?q = scrollLocked navPage"
    by (simp_all add: menuOpen_def scrollLocked_def f)
  have h2: "cached ?q \<and> navMenu ?q \<noteq> None \<and> navToggle ?q \<noteq> None \<and> lockStep ?q \<and> \<not> menuOpen ?q"
    using h1 by (simp add: f m lockStep_def) (simp add: navPage_def)
  from h1 menu_lock_step [of navPage "[Init, ClickNavToggle, KeyDown (str ''Escape'')]"]
  have "lockStep (run [Init, ClickNavToggle, KeyDown (str ''Escape'')] navPage)" by blast
  moreover from h2 menu_lock_step [of ?q]
  have "scrollLocked (snd (toggleMobileMenu ?q)) \<and>
        scrollLocked (snd (toggleMobileMenu (snd (toggleMobileMenu ?q)))) = scrollLocked ?q"
    by blast
  ultimately show ?thesis using h1 h2 m by simp
qed

subsection \<open>Notifications\<close>

lemma notifications_removeExisting:
  "notifications (removeExisting p) = tl (notifications p)"
  by (simp add: removeExisting_def split: list.splits)

lemma notifications_showNotification:
  "notifications (showNotification m t p) =
     tl (notifications p) @
       [\<lparr>nid = nextId p, className = str ''notification notification-'' @ t, message = m,
         background = (if t = str ''success'' then str ''#28a745'' else str ''#dc3545''),
         transform = str ''translateX(100%)''\<rparr>]"
  by (simp add: showNotification_def appendNotification_def Let_def notifications_removeExisting)
     (simp add: removeExisting_def)

lemma banner_showNotification:
  "atMostOneBanner p \<Longrightarrow> length (notifications (showNotification m t p)) = 1"
  by (simp add: atMostOneBanner_def notifications_showNotification)

lemma banner_showNotification':
  "atMostOneBanner p \<Longrightarrow> atMostOneBanner (showNotification m t p)"
  by (simp add: atMostOneBanner_def notifications_showNotification)

lemma banner_cong: "notifications q = notifications p \<Longrightarrow> atMostOneBanner p \<Longrightarrow> atMostOneBanner q"
  by (simp add: atMostOneBanner_def)

lemma notifications_toggleMobileMenu:
  "notifications (snd (toggleMobileMenu p)) = notifications p"
  by (simp add: toggleMobileMenu_def Let_def split: option.splits)

lemma notifications_handleSmoothScroll:
  "notifications (snd (handleSmoothScroll h p)) = notifications p"
  by (simp add: handleSmoothScroll_def Let_def notifications_toggleMobileMenu
        split: query_result.splits)

lemma notifications_init: "notifications (snd (init p)) = notifications p"
  by (cases "isInitialized p") (simp_all add: init_again init_fields)

lemma notifications_onControl: "notifications (onControl i g p) = notifications p"
  by (simp add: onControl_def split: option.splits)

lemma banner_begin:
  assumes "atMostOneBanner p"
  shows "atMostOneBanner (snd (handleFormSubmit_begin p))"
proof -
  have "atMostOneBanner (p\<lparr>contactForm := x\<rparr>)" for x
    using assms by (simp add: atMostOneBanner_def)
  then have "atMostOneBanner (showNotification m t (p\<lparr>contactForm := x\<rparr>))" for x m t
    by (rule banner_showNotification')
  with assms show ?thesis
    by (simp add: handleFormSubmit_begin_def Let_def split: option.splits)
       (simp add: atMostOneBanner_def)
qed

lemma banner_afterFetch:
  "afterFetch outcome p = Inr q \<Longrightarrow> atMostOneBanner p \<Longrightarrow> atMostOneBanner q"
  using banner_showNotification' [of p successMessage "str ''success''"]
  by (auto simp: afterFetch_def Let_def atMostOneBanner_def
           split: fetch_outcome.splits body.splits sum.splits if_splits)

lemma notifications_restoreButton: "notifications (restoreButton t p) = notifications p"
  by (simp add: restoreButton_def)

lemma banner_resume:
  assumes "atMostOneBanner p"
  shows "atMostOneBanner (snd (handleFormSubmit_resume t outcome p))"
proof (cases "afterFetch outcome p")
  case (Inl e)
  then have "snd (handleFormSubmit_resume t outcome p) =
      restoreButton t (showNotification failureMessage (str ''error'') p)"
    by (simp add: handleFormSubmit_resume_def)
  with banner_showNotification' [OF assms, of failureMessage "str ''error''"] show ?thesis
    by (simp add: atMostOneBanner_def notifications_restoreButton)
next
  case (Inr q)
  then have "snd (handleFormSubmit_resume t outcome p) = restoreButton t q"
    by (simp add: handleFormSubmit_resume_def)
  with banner_afterFetch [OF Inr assms] show ?thesis
    by (simp add: atMostOneBanner_def notifications_restoreButton)
qed

lemma banner_runTask:
  assumes "atMostOneBanner p"
  shows "atMostOneBanner (runTask k p)"
proof (cases k)
  case (RemoveNotification i)
  have "length (filter (\<lambda>n. nid n \<noteq> i) (notifications p)) \<le> length (notifications p)"
    by (rule length_filter_le)
  with assms have "length (filter (\<lambda>n. nid n \<noteq> i) (notifications p)) \<le> 1"
    unfolding atMostOneBanner_def by linarith
  with RemoveNotification show ?thesis by (simp add: atMostOneBanner_def)
qed (use assms in \<open>simp_all add: atMostOneBanner_def setTransform_def updateHeaderOnScroll_def Let_def
      split: option.splits\<close>)

lemma banner_drop [simp]:
  "atMostOneBanner (p\<lparr>pending := x\<rparr>) = atMostOneBanner p"
  "atMostOneBanner (p\<lparr>timers := y\<rparr>) = atMostOneBanner p"
  by (simp_all add: atMostOneBanner_def)

lemma banner_step:
  assumes "atMostOneBanner p"
  shows "atMostOneBanner (step e p)"
proof (cases e)
  case Init
  then show ?thesis by (intro banner_cong [OF _ assms]) (simp add: notifications_init)
next
  case ClickNavToggle
  then show ?thesis by (intro banner_cong [OF _ assms]) (simp add: notifications_toggleMobileMenu)
next
  case (ClickNavLink i)
  then show ?thesis
    by (intro banner_cong [OF _ assms]) (simp add: notifications_handleSmoothScroll split: option.splits)
next
  case (KeyDown key)
  then show ?thesis by (intro banner_cong [OF _ assms]) (simp add: notifications_toggleMobileMenu)
next
  case (Scroll y)
  then show ?thesis by (intro banner_cong [OF _ assms]) (simp add: Let_def)
next
  case ClickThemeToggle
  then show ?thesis
    by (intro banner_cong [OF _ assms]) (simp add: toggleTheme_def setTheme_def Let_def)
next
  case (Blur i)
  then show ?thesis by (intro banner_cong [OF _ assms]) (simp add: notifications_onControl)
next
  case (Input i v)
  then show ?thesis by (intro banner_cong [OF _ assms]) (simp add: Let_def notifications_onControl)
next
  case Submit
  with assms show ?thesis by (simp add: banner_begin)
next
  case (Answer k outcome)
  with assms banner_resume [of "p\<lparr>pending := dropAt k (pending p)\<rparr>" "pending p ! k" outcome]
  show ?thesis by simp
next
  case (Timer k)
  with assms banner_runTask [of "p\<lparr>timers := dropAt k (timers p)\<rparr>" "timers p ! k"]
  show ?thesis by simp
next
  case (Intersect i b)
  then show ?thesis by (intro banner_cong [OF _ assms]) simp
qed

lemma banner_run: "atMostOneBanner p \<Longrightarrow> atMostOneBanner (run evs p)"
  by (induction evs arbitrary: p) (simp_all add: run_Nil run_Cons banner_step)

text \<open>
  Claim C3. From a document with at most one banner, every state that the events of the
  page lead to (submissions, answers of the relay and timers in any order) has at
  most one banner; a call of \<^verbatim>\<open>showNotification\<close> in such a state has no banner left
  after its removal step and exactly one after its insertion step.
\<close>

theorem one_notification:
  "length (notifications p) \<le> 1 \<longrightarrow>
     length (notifications (run evs p)) \<le> 1 \<and>
     notifications (removeExisting (run evs p)) = [] \<and>
     length (notifications (showNotification msg ty (run evs p))) = 1"
proof
  assume "length (notifications p) \<le> 1"
  then have "atMostOneBanner p" by (simp add: atMostOneBanner_def)
  then have b: "atMostOneBanner (run evs p)" by (rule banner_run)
  then have l: "length (notifications (run evs p)) \<le> 1" by (simp add: atMostOneBanner_def)
  then have "notifications (removeExisting (run evs p)) = []"
    by (cases "notifications (run evs p)") (simp_all add: notifications_removeExisting)
  with l b show "length (notifications (run evs p)) \<le> 1 \<and>
     notifications (removeExisting (run evs p)) = [] \<and>
     length (notifications (showNotification msg ty (run evs p))) = 1"
    by (simp add: banner_showNotification)
qed

text \<open>
  Three submissions of an invalid form in a row, with a timer of the first banner in
  between.
\<close>

theorem one_notification_witness:
  "length (notifications contactPage) \<le> 1 \<and>
   length (notifications (run [Init, Submit, Submit, Timer 0, Submit] contactPage)) \<le> 1 \<and>
   length (notifications (showNotification fixMessage (str ''error'')
      (run [Init, Submit, Submit, Timer 0, Submit] contactPage))) = 1"
proof -
  have h: "length (notifications contactPage) \<le> 1"
    by (simp add: contactPage_def blankPage_def)
  with one_notification [of contactPage "[Init, Submit, Submit, Timer 0, Submit]" fixMessage "str ''error''"]
  show ?thesis by blast
qed

subsection \<open>Submission\<close>

lemma validateInput_keeps:
  "value (snd (validateInput c)) = value c"
  "defaultValue (snd (validateInput c)) = defaultValue c"
  by (simp_all add: validateInput_def Let_def showValidationError_def clearValidationError_def
        split: prod.splits)

lemma validateRequired_keeps:
  "value (snd (validateRequired c)) = value c"
  "defaultValue (snd (validateRequired c)) = defaultValue c"
  by (simp_all add: validateRequired_def validateInput_keeps)

lemma begin_valid:
  assumes "el_contactForm p = Some f"
    and "list_all (\<lambda>c. fst (validateRequired c)) (controls f)"
    and "submitBtn f = Some btn"
  shows "handleFormSubmit_begin p =
     (Suspended,
      p\<lparr>contactForm :=
          Some (f\<lparr>controls := map (\<lambda>c. snd (validateRequired c)) (controls f),
                  submitBtn := Some (btn\<lparr>textContent := str ''Sending...'', disabled := True\<rparr>)\<rparr>),
        pending := pending p @ [textContent btn]\<rparr>)"
  using assms
  by (simp add: handleFormSubmit_begin_def Let_def list_all_iff comp_def)

lemma afterFetch_failed: "relayFailed outcome \<Longrightarrow> \<exists>e. afterFetch outcome p = Inl e"
proof (cases outcome)
  case NetworkError
  then show ?thesis by (simp add: afterFetch_def)
next
  case (Response ok b)
  assume f: "relayFailed outcome"
  show ?thesis
  proof (cases b)
    case InvalidJSON
    with Response show ?thesis by (simp add: afterFetch_def)
  next
    case (Json data)
    with Response f have d: "\<not> ok \<or> \<not> dataSuccess data" by simp
    show ?thesis
    proof (cases ok)
      case False
      with Response Json show ?thesis
        by (cases "getProp data (str ''message'')") (simp_all add: afterFetch_def)
    next
      case True
      with d have nd: "\<not> dataSuccess data" by simp
      show ?thesis
      proof (cases "getProp data (str ''success'')")
        case (Inl e)
        with Response Json True show ?thesis by (simp add: afterFetch_def)
      next
        case (Inr v)
        with nd have "\<not> truthy v" by (simp add: dataSuccess_def)
        with Response Json True Inr show ?thesis
          by (cases "getProp data (str ''message'')") (simp_all add: afterFetch_def)
      qed
    qed
  qed
qed

lemma afterFetch_succeeded:
  "\<not> relayFailed outcome \<Longrightarrow>
   afterFetch outcome p =
     Inr ((showNotification successMessage (str ''success'') p)
            \<lparr>contactForm := map_option reset (contactForm p)\<rparr>)"
proof (cases outcome)
  case NetworkError
  assume "\<not> relayFailed outcome"
  with NetworkError show ?thesis by simp
next
  case (Response ok b)
  assume f: "\<not> relayFailed outcome"
  with Response obtain data where b: "b = Json data" and ok: ok and d: "dataSuccess data"
    by (cases b) auto
  from d obtain v where v: "getProp data (str ''success'') = Inr v" "truthy v"
    by (auto simp: dataSuccess_def split: sum.splits)
  have "contactForm (showNotification successMessage (str ''success'') p) = contactForm p"
    by (simp add: showNotification_def appendNotification_def removeExisting_def Let_def)
  with Response b ok v show ?thesis
    by (simp add: afterFetch_def Let_def)
qed

lemma contactForm_showNotification: "contactForm (showNotification m t p) = contactForm p"
  by (simp add: showNotification_def appendNotification_def removeExisting_def Let_def)

lemma showNotification_contactForm:
  "showNotification m t (p\<lparr>contactForm := x\<rparr>) = (showNotification m t p)\<lparr>contactForm := x\<rparr>"
  by (simp add: showNotification_def appendNotification_def removeExisting_def Let_def)

text \<open>The whole submission of a valid form, for an answer that fails and for one that succeeds.\<close>

lemma handleFormSubmit_valid:
  assumes "el_contactForm p = Some f"
    and "list_all (\<lambda>c. fst (validateRequired c)) (controls f)"
    and "submitBtn f = Some btn"
  shows "handleFormSubmit outcome p =
     (Returned,
      (showNotification
         (if relayFailed outcome then failureMessage else successMessage)
         (if relayFailed outcome then str ''error'' else str ''success'') p)
       \<lparr>contactForm :=
          Some (f\<lparr>controls :=
                    (if relayFailed outcome
                     then map (\<lambda>c. snd (validateRequired c)) (controls f)
                     else map (\<lambda>c. (snd (validateRequired c))\<lparr>value := defaultValue c\<rparr>) (controls f)),
                  submitBtn := Some (btn\<lparr>disabled := False\<rparr>)\<rparr>)\<rparr>)"
proof -
  let ?f1 = "f\<lparr>controls := map (\<lambda>c. snd (validateRequired c)) (controls f),
                submitBtn := Some (btn\<lparr>textContent := str ''Sending...'', disabled := True\<rparr>)\<rparr>"
  let ?p1 = "p\<lparr>contactForm := Some ?f1, pending := pending p\<rparr>"
  have b: "handleFormSubmit outcome p = handleFormSubmit_resume (textContent btn) outcome ?p1"
    by (simp add: handleFormSubmit_def begin_valid [OF assms])
  show ?thesis
  proof (cases "relayFailed outcome")
    case True
    then obtain e where "afterFetch outcome ?p1 = Inl e" using afterFetch_failed by blast
    with True show ?thesis
      unfolding b
      by (simp add: handleFormSubmit_resume_def restoreButton_def showNotification_contactForm
            contactForm_showNotification Let_def)
  next
    case False
    from afterFetch_succeeded [OF False, of ?p1] False show ?thesis
      unfolding b
      by (simp add: handleFormSubmit_resume_def restoreButton_def showNotification_contactForm
            contactForm_showNotification Let_def reset_def
            comp_def validateRequired_keeps)
  qed
qed

text \<open>
  Claim C2. A submission of a form whose required controls all pass validation and that
  has a submit control returns, for every way the request can end, with the submit
  control enabled and labelled as it was when the form was submitted. If the request
  fails (network error, a body that is not JSON, an HTTP failure status, or a body
  whose \<^verbatim>\<open>success\<close> cannot be read or is falsy), the values of the controls are as
  they were and the failure banner has taken the place of the banner shown before.
\<close>

theorem submit_failure_and_restore:
  "el_contactForm p = Some f \<and> (\<forall>c \<in> set (controls f). required c \<longrightarrow> fst (validateInput c)) \<and>
   submitBtn f = Some btn \<longrightarrow>
     fst (handleFormSubmit outcome p) = Returned \<and>
     (\<exists>f'. contactForm (snd (handleFormSubmit outcome p)) = Some f' \<and>
        submitBtn f' = Some (btn\<lparr>disabled := False\<rparr>) \<and>
        (relayFailed outcome \<longrightarrow>
           map value (controls f') = map value (controls f) \<and>
           notifications (snd (handleFormSubmit outcome p)) =
             tl (notifications p) @ [banner (nextId p) failureMessage (str ''error'')]))"
proof
  assume a: "el_contactForm p = Some f \<and>
    (\<forall>c \<in> set (controls f). required c \<longrightarrow> fst (validateInput c)) \<and> submitBtn f = Some btn"
  then have v: "list_all (\<lambda>c. fst (validateRequired c)) (controls f)"
    by (simp add: list_all_iff validateRequired_def)
  from a have f: "el_contactForm p = Some f" and s: "submitBtn f = Some btn" by simp_all
  note r = handleFormSubmit_valid [OF f v s, of outcome]
  show "fst (handleFormSubmit outcome p) = Returned \<and>
     (\<exists>f'. contactForm (snd (handleFormSubmit outcome p)) = Some f' \<and>
        submitBtn f' = Some (btn\<lparr>disabled := False\<rparr>) \<and>
        (relayFailed outcome \<longrightarrow>
           map value (controls f') = map value (controls f) \<and>
           notifications (snd (handleFormSubmit outcome p)) =
             tl (notifications p) @ [banner (nextId p) failureMessage (str ''error'')]))"
    unfolding r
    by (simp add: notifications_showNotification banner_def comp_def validateRequired_keeps)
qed

lemma goodEmailField_valid: "fst (validateInput goodEmailField)"
proof -
  have "email_shape (value goodEmailField)"
    using shape_a_b_co by (simp add: goodEmailField_def)
  then have "trim (value goodEmailField) = value goodEmailField" "isValidEmail (value goodEmailField)"
    by (simp_all add: email_shape_trim isValidEmail_shape)
  moreover have "value goodEmailField \<noteq> []"
    by (simp add: goodEmailField_def str_def)
  ultimately have "validateInput goodEmailField = (True, clearValidationError goodEmailField)"
    by (intro validateInput_ok) simp_all
  then show ?thesis by simp
qed

lemma validPage_form:
  "el_contactForm validPage = Some \<lparr>controls = [goodEmailField], submitBtn = Some sendButton\<rparr>"
  "notifications validPage = []" "nextId validPage = 0"
  by (simp_all add: validPage_def blankPage_def el_contactForm_def)

text \<open>
  A valid form and a request that ends with a network error.
\<close>

theorem submit_failure_and_restore_witness:
  "(el_contactForm validPage = Some \<lparr>controls = [goodEmailField], submitBtn = Some sendButton\<rparr> \<and>
    fst (validateInput goodEmailField)) \<and>
   relayFailed NetworkError \<and>
   fst (handleFormSubmit NetworkError validPage) = Returned \<and>
   (\<exists>f'. contactForm (snd (handleFormSubmit NetworkError validPage)) = Some f' \<and>
      submitBtn f' = Some sendButton \<and> map value (controls f') = [str ''a@b.co'']) \<and>
   notifications (snd (handleFormSubmit NetworkError validPage)) =
     [banner 0 failureMessage (str ''error'')]"
proof -
  let ?f = "\<lparr>controls = [goodEmailField], submitBtn = Some sendButton\<rparr>"
  have h: "el_contactForm validPage = Some ?f \<and>
    (\<forall>c \<in> set (controls ?f). required c \<longrightarrow> fst (validateInput c)) \<and>
    submitBtn ?f = Some sendButton"
    using goodEmailField_valid by (simp add: validPage_form)
  have b: "sendButton\<lparr>disabled := False\<rparr> = sendButton" by (simp add: sendButton_def)
  have v: "map value (controls ?f) = [str ''a@b.co'']" by (simp add: goodEmailField_def)
  from h submit_failure_and_restore [of validPage ?f sendButton NetworkError]
  show ?thesis
    unfolding b v using goodEmailField_valid by (auto simp: validPage_form)
qed

text \<open>
  Claim C10, with the success indicator read as JavaScript reads it. When the relay
  answers with an HTTP success status and \<^verbatim>\<open>data.success\<close> cannot be read or is falsy
  (\<^verbatim>\<open>false\<close>, \<^verbatim>\<open>0\<close>, the empty string, \<^verbatim>\<open>null\<close>, no such member, a body that
  is \<^verbatim>\<open>null\<close> or not an object), the submission of a valid form ends with the failure
  notification and the values of the controls as they were.
\<close>

theorem falsy_success_is_failure:
  "el_contactForm p = Some f \<and> (\<forall>c \<in> set (controls f). required c \<longrightarrow> fst (validateInput c)) \<and>
   submitBtn f = Some btn \<and> \<not> dataSuccess data \<longrightarrow>
     map_option (\<lambda>f'. map value (controls f'))
       (contactForm (snd (handleFormSubmit (Response True (Json data)) p))) =
       Some (map value (controls f)) \<and>
     notifications (snd (handleFormSubmit (Response True (Json data)) p)) =
       tl (notifications p) @ [banner (nextId p) failureMessage (str ''error'')]"
proof
  assume a: "el_contactForm p = Some f \<and>
    (\<forall>c \<in> set (controls f). required c \<longrightarrow> fst (validateInput c)) \<and> submitBtn f = Some btn \<and>
    \<not> dataSuccess data"
  then have v: "list_all (\<lambda>c. fst (validateRequired c)) (controls f)"
    by (simp add: list_all_iff validateRequired_def)
  from a have f: "el_contactForm p = Some f" and s: "submitBtn f = Some btn"
    and d: "relayFailed (Response True (Json data))" by simp_all
  note r = handleFormSubmit_valid [OF f v s, of "Response True (Json data)"]
  show "map_option (\<lambda>f'. map value (controls f'))
       (contactForm (snd (handleFormSubmit (Response True (Json data)) p))) =
       Some (map value (controls f)) \<and>
     notifications (snd (handleFormSubmit (Response True (Json data)) p)) =
       tl (notifications p) @ [banner (nextId p) failureMessage (str ''error'')]"
    unfolding r using d
    by (simp add: notifications_showNotification banner_def comp_def validateRequired_keeps)
qed

lemma dataSuccess_refusal: "\<not> dataSuccess refusal"
  by (simp add: dataSuccess_def refusal_def) (simp add: str_def)

lemma dataSuccess_oddAnswer: "dataSuccess oddAnswer"
  by (simp add: dataSuccess_def oddAnswer_def)

text \<open>A valid form and the answer \<^verbatim>\<open>{"success": false, "message": "Invalid key"}\<close>.\<close>

theorem falsy_success_is_failure_witness:
  "(el_contactForm validPage = Some \<lparr>controls = [goodEmailField], submitBtn = Some sendButton\<rparr> \<and>
    fst (validateInput goodEmailField) \<and> \<not> dataSuccess refusal) \<and>
   map_option (\<lambda>f'. map value (controls f'))
       (contactForm (snd (handleFormSubmit (Response True (Json refusal)) validPage))) =
       Some [str ''a@b.co''] \<and>
   notifications (snd (handleFormSubmit (Response True (Json refusal)) validPage)) =
     [banner 0 failureMessage (str ''error'')]"
proof -
  let ?f = "\<lparr>controls = [goodEmailField], submitBtn = Some sendButton\<rparr>"
  have h: "el_contactForm validPage = Some ?f \<and>
    (\<forall>c \<in> set (controls ?f). required c \<longrightarrow> fst (validateInput c)) \<and>
    submitBtn ?f = Some sendButton \<and> \<not> dataSuccess refusal"
    using goodEmailField_valid dataSuccess_refusal by (simp add: validPage_form)
  have v: "map value (controls ?f) = [str ''a@b.co'']" by (simp add: goodEmailField_def)
  from h falsy_success_is_failure [of validPage ?f sendButton refusal]
  show ?thesis
    unfolding v using goodEmailField_valid dataSuccess_refusal by (simp add: validPage_form)
qed

text \<open>
  Claim C10 as it is written, for every success indicator that is not \<^verbatim>\<open>true\<close>, fails:
  the body \<^verbatim>\<open>{"success": 1}\<close> has an indicator that is not \<^verbatim>\<open>true\<close>, and the
  submission ends with the success notification and the form reset.
\<close>

theorem truthy_success_counterexample:
  "getProp oddAnswer (str ''success'') = Inr (JNumber 1) \<and> JNumber 1 \<noteq> JBoolean True \<and>
   el_contactForm validPage = Some \<lparr>controls = [goodEmailField], submitBtn = Some sendButton\<rparr> \<and>
   fst (validateInput goodEmailField) \<and> value goodEmailField = str ''a@b.co'' \<and>
   map_option (\<lambda>f'. map value (controls f'))
       (contactForm (snd (handleFormSubmit (Response True (Json oddAnswer)) validPage))) =
       Some [[]] \<and>
   notifications (snd (handleFormSubmit (Response True (Json oddAnswer)) validPage)) =
     [banner 0 successMessage (str ''success'')]"
proof -
  let ?f = "\<lparr>controls = [goodEmailField], submitBtn = Some sendButton\<rparr>"
  have v: "list_all (\<lambda>c. fst (validateRequired c)) (controls ?f)"
    using goodEmailField_valid by (simp add: validateRequired_def)
  have d: "\<not> relayFailed (Response True (Json oddAnswer))"
    using dataSuccess_oddAnswer by simp
  note r = handleFormSubmit_valid [OF validPage_form(1) v, of sendButton "Response True (Json oddAnswer)"]
  have g: "getProp oddAnswer (str ''success'') = Inr (JNumber 1)"
    by (simp add: oddAnswer_def)
  have dv: "defaultValue goodEmailField = []" "value goodEmailField = str ''a@b.co''"
    by (simp_all add: goodEmailField_def)
  show ?thesis
    using d g goodEmailField_valid dv
    by (simp add: r validPage_form notifications_showNotification banner_def)
qed

text \<open>
  The answer may arrive after other events have changed the page. Whatever the page is
  by then, the rest of \<^verbatim>\<open>handleFormSubmit\<close> gives the submit control the label it was
  called with and enables it, and after a failed request it leaves the values of the
  controls alone and shows the failure banner.
\<close>

lemma resume_any_state:
  assumes "contactForm q = Some fq"
  shows "fst (handleFormSubmit_resume originalText outcome q) = Returned"
    and "\<exists>f'. contactForm (snd (handleFormSubmit_resume originalText outcome q)) = Some f' \<and>
           submitBtn f' =
             map_option (\<lambda>b. b\<lparr>textContent := originalText, disabled := False\<rparr>) (submitBtn fq) \<and>
           (relayFailed outcome \<longrightarrow> controls f' = controls fq)"
    and "relayFailed outcome \<Longrightarrow>
         notifications (snd (handleFormSubmit_resume originalText outcome q)) =
           tl (notifications q) @ [banner (nextId q) failureMessage (str ''error'')]"
proof -
  show "fst (handleFormSubmit_resume originalText outcome q) = Returned"
    by (simp add: handleFormSubmit_resume_def Let_def)
  show "\<exists>f'. contactForm (snd (handleFormSubmit_resume originalText outcome q)) = Some f' \<and>
           submitBtn f' =
             map_option (\<lambda>b. b\<lparr>textContent := originalText, disabled := False\<rparr>) (submitBtn fq) \<and>
           (relayFailed outcome \<longrightarrow> controls f' = controls fq)"
  proof (cases "relayFailed outcome")
    case True
    then obtain e where "afterFetch outcome q = Inl e" using afterFetch_failed by blast
    with assms True show ?thesis
      by (simp add: handleFormSubmit_resume_def restoreButton_def contactForm_showNotification)
  next
    case False
    from afterFetch_succeeded [OF False, of q] assms False show ?thesis
      by (simp add: handleFormSubmit_resume_def restoreButton_def contactForm_showNotification
            reset_def)
  qed
  show "notifications (snd (handleFormSubmit_resume originalText outcome q)) =
           tl (notifications q) @ [banner (nextId q) failureMessage (str ''error'')]"
    if "relayFailed outcome"
  proof -
    from that obtain e where "afterFetch outcome q = Inl e" using afterFetch_failed by blast
    then show ?thesis
      by (simp add: handleFormSubmit_resume_def notifications_restoreButton
            notifications_showNotification banner_def)
  qed
qed

subsection \<open>Initialisation on a page with missing elements\<close>

lemma linkLoop_adds:
  "list_all (\<lambda>l. l \<noteq> None) ls \<Longrightarrow> j < length ls \<Longrightarrow> ls ! j = Some h \<Longrightarrow>
   startsWith h (str ''#'') \<Longrightarrow> NavLinkClick (i + j) \<in> set (listeners (snd (linkLoop i ls p)))"
proof (induction ls arbitrary: i j p)
  case Nil
  then show ?case by simp
next
  case (Cons l ls)
  from Cons.prems(1) obtain h0 where l: "l = Some h0" and ok: "list_all (\<lambda>l. l \<noteq> None) ls"
    by (cases l) auto
  let ?q = "if startsWith h0 (str ''#'') then addListener (NavLinkClick i) p else p"
  show ?case
  proof (cases j)
    case 0
    with Cons.prems l have "NavLinkClick i \<in> set (listeners ?q)"
      by (simp add: addListener_mem)
    then have "NavLinkClick i \<in> set (listeners (snd (linkLoop (Suc i) ls ?q)))"
      by (rule linkLoop_keeps)
    with 0 l show ?thesis by simp
  next
    case (Suc j')
    with Cons.prems have "j' < length ls" "ls ! j' = Some h" by simp_all
    from Cons.IH [OF ok this Cons.prems(4), of "Suc i" ?q] Suc l show ?thesis by simp
  qed
qed

lemma controlLoop_keeps: "k \<in> set (listeners p) \<Longrightarrow> k \<in> set (listeners (controlLoop i cs p))"
proof (induction cs arbitrary: i p)
  case Nil
  then show ?case by simp
next
  case (Cons c cs)
  then show ?case by (simp add: addListener_mono)
qed

lemma controlLoop_adds:
  "j < length cs \<Longrightarrow> listensTo (cs ! j) \<Longrightarrow>
   ControlBlur (i + j) \<in> set (listeners (controlLoop i cs p)) \<and>
   ControlInput (i + j) \<in> set (listeners (controlLoop i cs p))"
proof (induction cs arbitrary: i j p)
  case Nil
  then show ?case by simp
next
  case (Cons c cs)
  let ?q = "if listensTo c then addListener (ControlInput i) (addListener (ControlBlur i) p) else p"
  show ?case
  proof (cases j)
    case 0
    with Cons.prems have "ControlBlur i \<in> set (listeners ?q)" "ControlInput i \<in> set (listeners ?q)"
      by (simp_all add: addListener_mem addListener_mono)
    then have "ControlBlur i \<in> set (listeners (controlLoop (Suc i) cs ?q))"
      "ControlInput i \<in> set (listeners (controlLoop (Suc i) cs ?q))"
      by (simp_all add: controlLoop_keeps)
    with 0 show ?thesis by simp
  next
    case (Suc j')
    with Cons.prems have "j' < length cs" "listensTo (cs ! j')" by simp_all
    from Cons.IH [OF this, of "Suc i" ?q] Suc show ?thesis by simp
  qed
qed

lemma setupNavigation_result:
  assumes "linksOk p"
  shows "setupNavigation p =
     (Returned,
      let p1 = (if el_navToggle p \<noteq> None \<and> el_navMenu p \<noteq> None
                then addListener NavToggleClick p else p);
          p2 = snd (linkLoop 0 (navLinks p) p1)
      in if el_header p \<noteq> None then addListener WindowScroll (p2\<lparr>ticking := False\<rparr>) else p2)"
proof -
  let ?p1 = "if el_navToggle p \<noteq> None \<and> el_navMenu p \<noteq> None then addListener NavToggleClick p else p"
  have n: "navLinks ?p1 = navLinks p" by (simp add: addListener_def)
  obtain L1 where p1: "?p1 = p\<lparr>listeners := L1\<rparr>"
    by (cases "el_navToggle p \<noteq> None \<and> el_navMenu p \<noteq> None")
       (auto simp: addListener_alt intro: that [of "listeners p"])
  obtain L2 where p2: "snd (linkLoop 0 (navLinks p) ?p1) = ?p1\<lparr>listeners := L2\<rparr>"
    using linkLoop_snd by blast
  have h: "el_header (snd (linkLoop 0 (navLinks p) ?p1)) = el_header p"
    unfolding p2 unfolding p1 by (simp add: el_header_def)
  have f: "fst (linkLoop 0 (navLinks p) ?p1) = Returned"
    using assms by (simp add: linkLoop_fst linksOk_def)
  obtain q where r: "linkLoop 0 (navLinks p) ?p1 = (Returned, q)"
    using f by (cases "linkLoop 0 (navLinks p) ?p1") simp
  from h r have hq: "el_header q = el_header p" by simp
  show ?thesis
    unfolding setupNavigation_def Let_def n r andThen_def by (simp add: hq)
qed

lemma setupNavigation_listeners:
  assumes "linksOk p"
  shows "el_navToggle p \<noteq> None \<and> el_navMenu p \<noteq> None \<Longrightarrow>
           NavToggleClick \<in> set (listeners (snd (setupNavigation p)))"
    and "i < length (navLinks p) \<Longrightarrow> navLinks p ! i = Some h \<Longrightarrow> startsWith h (str ''#'') \<Longrightarrow>
           NavLinkClick i \<in> set (listeners (snd (setupNavigation p)))"
    and "el_header p \<noteq> None \<Longrightarrow> WindowScroll \<in> set (listeners (snd (setupNavigation p)))"
proof -
  let ?p1 = "if el_navToggle p \<noteq> None \<and> el_navMenu p \<noteq> None then addListener NavToggleClick p else p"
  let ?p2 = "snd (linkLoop 0 (navLinks p) ?p1)"
  have s: "snd (setupNavigation p) =
      (if el_header p \<noteq> None then addListener WindowScroll (?p2\<lparr>ticking := False\<rparr>) else ?p2)"
    by (simp add: setupNavigation_result [OF assms] Let_def)
  have m: "k \<in> set (listeners ?p2) \<Longrightarrow> k \<in> set (listeners (snd (setupNavigation p)))" for k
    unfolding s by (simp add: addListener_def)
  show "NavToggleClick \<in> set (listeners (snd (setupNavigation p)))"
    if "el_navToggle p \<noteq> None \<and> el_navMenu p \<noteq> None"
  proof -
    from that have "NavToggleClick \<in> set (listeners ?p1)" by (simp add: addListener_mem)
    then have "NavToggleClick \<in> set (listeners ?p2)" by (rule linkLoop_keeps)
    then show ?thesis by (rule m)
  qed
  show "NavLinkClick i \<in> set (listeners (snd (setupNavigation p)))"
    if "i < length (navLinks p)" "navLinks p ! i = Some h" "startsWith h (str ''#'')"
  proof -
    from assms have "list_all (\<lambda>l. l \<noteq> None) (navLinks p)" by (simp add: linksOk_def)
    from linkLoop_adds [OF this that, of 0 ?p1] have "NavLinkClick i \<in> set (listeners ?p2)" by simp
    then show ?thesis by (rule m)
  qed
  show "WindowScroll \<in> set (listeners (snd (setupNavigation p)))" if "el_header p \<noteq> None"
    unfolding s using that by (simp add: addListener_mem)
qed

lemma setupFormHandling_listeners:
  assumes "el_contactForm p = Some f"
  shows "FormSubmit \<in> set (listeners (setupFormHandling p))"
    and "i < length (controls f) \<Longrightarrow> listensTo (controls f ! i) \<Longrightarrow>
         ControlBlur i \<in> set (listeners (setupFormHandling p)) \<and>
         ControlInput i \<in> set (listeners (setupFormHandling p))"
proof -
  have s: "setupFormHandling p = controlLoop 0 (controls f) (addListener FormSubmit p)"
    using assms by (simp add: setupFormHandling_def)
  show "FormSubmit \<in> set (listeners (setupFormHandling p))"
    unfolding s by (rule controlLoop_keeps) (rule addListener_mem)
  show "ControlBlur i \<in> set (listeners (setupFormHandling p)) \<and>
         ControlInput i \<in> set (listeners (setupFormHandling p))"
    if "i < length (controls f)" "listensTo (controls f ! i)"
    unfolding s using controlLoop_adds [OF that, of 0 "addListener FormSubmit p"] by simp
qed

lemma setupFormHandling_keeps:
  "k \<in> set (listeners p) \<Longrightarrow> k \<in> set (listeners (setupFormHandling p))"
  by (simp add: setupFormHandling_def controlLoop_keeps addListener_mono split: option.splits)

lemma hideLoadingScreen_fields:
  "listeners (hideLoadingScreen p) = listeners p"
  "animateElements (hideLoadingScreen p) = animateElements p"
  "el_loading p \<noteq> None \<Longrightarrow> HideLoading \<in> set (timers (hideLoadingScreen p))"
  by (simp_all add: hideLoadingScreen_def)

lemma setupScrollEffects_result:
  assumes "matchMedia p = Some mm"
    and "mm (str ''(prefers-reduced-motion: reduce)'') \<or> intersectionObserver p"
  shows "setupScrollEffects p =
     (Returned,
      if mm (str ''(prefers-reduced-motion: reduce)'') then p
      else p\<lparr>animateElements := map hideForReveal (animateElements p)\<rparr>)"
  using assms by (auto simp: setupScrollEffects_def)

lemma andThen_Returned: "fst r = Returned \<Longrightarrow> andThen r f = f (snd r)"
  by (cases r) (simp add: andThen_def)

lemma init_result:
  assumes "\<not> isInitialized p" "linksOk p" "matchMedia p = Some mm"
    and "mm (str ''(prefers-reduced-motion: reduce)'') \<or> intersectionObserver p"
  shows "init p =
    (Returned,
     let p0 = cacheElements (p\<lparr>isInitialized := True\<rparr>);
         p1 = snd (setupNavigation p0);
         p2 = snd (setupThemeToggle p1);
         p3 = snd (setupScrollEffects p2)
     in hideLoadingScreen (setupFormHandling p3))"
proof -
  let ?p0 = "cacheElements (p\<lparr>isInitialized := True\<rparr>)"
  let ?p1 = "snd (setupNavigation ?p0)"
  let ?p2 = "snd (setupThemeToggle ?p1)"
  have l0: "linksOk ?p0" using assms(2) by (simp add: linksOk_def cacheElements_def)
  have f1: "fst (setupNavigation ?p0) = Returned"
    using l0 by (simp add: setupNavigation_fst linksOk_def)
  have f2: "fst (setupThemeToggle ?p1) = Returned"
    by (simp add: setupThemeToggle_def)
  obtain t L1 where s1: "?p1 = ?p0\<lparr>ticking := t, listeners := L1\<rparr>"
    using setupNavigation_snd by blast
  obtain L2 where s2: "setupThemeToggle ?p1 =
     (Returned,
      if el_themeToggle ?p1
      then ?p1\<lparr>dataTheme := Some (initialTheme ?p1),
             localStorage := (localStorage ?p1)(str ''theme'' \<mapsto> initialTheme ?p1),
             storageWrites := storageWrites ?p1 @ [(str ''theme'', initialTheme ?p1)],
             listeners := L2\<rparr>
      else ?p1\<lparr>listeners := L2\<rparr>)"
    using setupThemeToggle_shape by blast
  have "matchMedia ?p1 = Some mm"
    unfolding s1 using assms(3) by (simp add: cacheElements_def)
  then have m2: "matchMedia ?p2 = Some mm" by (simp add: s2)
  have "intersectionObserver ?p1 = intersectionObserver p"
    unfolding s1 by (simp add: cacheElements_def)
  then have "intersectionObserver ?p2 = intersectionObserver p" by (simp add: s2)
  with assms(4) have "mm (str ''(prefers-reduced-motion: reduce)'') \<or> intersectionObserver ?p2"
    by simp
  then have f3: "fst (setupScrollEffects ?p2) = Returned"
    by (simp add: setupScrollEffects_result [OF m2])
  from assms(1) show ?thesis
    by (simp add: init_def Let_def andThen_Returned [OF f1] andThen_Returned [OF f2]
          andThen_Returned [OF f3])
qed

lemma setupNavigation_frame:
  "el_themeToggle (snd (setupNavigation p)) = el_themeToggle p"
  "el_contactForm (snd (setupNavigation p)) = el_contactForm p"
  "el_loading (snd (setupNavigation p)) = el_loading p"
  "animateElements (snd (setupNavigation p)) = animateElements p"
  "matchMedia (snd (setupNavigation p)) = matchMedia p"
  "intersectionObserver (snd (setupNavigation p)) = intersectionObserver p"
proof -
  obtain t L where "snd (setupNavigation p) = p\<lparr>ticking := t, listeners := L\<rparr>"
    using setupNavigation_snd by blast
  then show "el_themeToggle (snd (setupNavigation p)) = el_themeToggle p"
    "el_contactForm (snd (setupNavigation p)) = el_contactForm p"
    "el_loading (snd (setupNavigation p)) = el_loading p"
    "animateElements (snd (setupNavigation p)) = animateElements p"
    "matchMedia (snd (setupNavigation p)) = matchMedia p"
    "intersectionObserver (snd (setupNavigation p)) = intersectionObserver p"
    by (simp_all add: el_themeToggle_def el_contactForm_def el_loading_def)
qed

lemma setupThemeToggle_frame:
  "el_contactForm (snd (setupThemeToggle p)) = el_contactForm p"
  "el_loading (snd (setupThemeToggle p)) = el_loading p"
  "animateElements (snd (setupThemeToggle p)) = animateElements p"
  "matchMedia (snd (setupThemeToggle p)) = matchMedia p"
  "k \<in> set (listeners p) \<Longrightarrow> k \<in> set (listeners (snd (setupThemeToggle p)))"
  "el_themeToggle p \<Longrightarrow> ThemeToggleClick \<in> set (listeners (snd (setupThemeToggle p)))"
  "intersectionObserver (snd (setupThemeToggle p)) = intersectionObserver p"
  by (simp_all add: setupThemeToggle_def addListener_def setTheme_def
        el_contactForm_def el_loading_def)

lemma setupScrollEffects_frame:
  "el_contactForm (snd (setupScrollEffects p)) = el_contactForm p"
  "el_loading (snd (setupScrollEffects p)) = el_loading p"
  "listeners (snd (setupScrollEffects p)) = listeners p"
  by (simp_all add: setupScrollEffects_def el_contactForm_def el_loading_def split: option.splits)

lemma setupFormHandling_frame:
  "el_loading (setupFormHandling p) = el_loading p"
  "animateElements (setupFormHandling p) = animateElements p"
proof -
  obtain L where "setupFormHandling p = p\<lparr>listeners := L\<rparr>"
    using setupFormHandling_shape by blast
  then show "el_loading (setupFormHandling p) = el_loading p"
    "animateElements (setupFormHandling p) = animateElements p"
    by (simp_all add: el_loading_def)
qed

text \<open>
  What initialisation tolerates. In a browser with \<^verbatim>\<open>window.matchMedia\<close> and, unless
  reduced motion is asked for, with \<^verbatim>\<open>IntersectionObserver\<close>, on a page whose
  navigation links, as far as there are any, carry an \<^verbatim>\<open>href\<close>: whichever of the
  loading overlay, the header, the navigation toggle, the navigation menu, the contact
  form, the theme toggle and the navigation links are absent, initialisation returns
  without an exception and every feature whose elements are present is set up.
\<close>

lemma init_sets_up_present_features:
  assumes "\<not> isInitialized p" and "matchMedia p = Some mm" and "linksOk p"
    and "mm (str ''(prefers-reduced-motion: reduce)'') \<or> intersectionObserver p"
  shows "fst (init p) = Returned \<and>
     (navToggle p \<noteq> None \<and> navMenu p \<noteq> None \<longrightarrow>
        NavToggleClick \<in> set (listeners (snd (init p)))) \<and>
     (\<forall>i h. i < length (navLinks p) \<and> navLinks p ! i = Some h \<and> startsWith h (str ''#'') \<longrightarrow>
        NavLinkClick i \<in> set (listeners (snd (init p)))) \<and>
     (header p \<noteq> None \<longrightarrow> WindowScroll \<in> set (listeners (snd (init p)))) \<and>
     (themeToggle p \<longrightarrow>
        ThemeToggleClick \<in> set (listeners (snd (init p))) \<and>
        dataTheme (snd (init p)) = Some (initialTheme p)) \<and>
     (\<forall>f. contactForm p = Some f \<longrightarrow>
        FormSubmit \<in> set (listeners (snd (init p))) \<and>
        (\<forall>i. i < length (controls f) \<and> listensTo (controls f ! i) \<longrightarrow>
           ControlBlur i \<in> set (listeners (snd (init p))) \<and>
           ControlInput i \<in> set (listeners (snd (init p))))) \<and>
     (loading p \<noteq> None \<longrightarrow> HideLoading \<in> set (timers (snd (init p)))) \<and>
     (\<not> mm (str ''(prefers-reduced-motion: reduce)'') \<longrightarrow>
        animateElements (snd (init p)) = map hideForReveal (animateElements p))"
proof -
  from assms have a: "\<not> isInitialized p \<and> matchMedia p = Some mm \<and> linksOk p" by simp
  let ?p0 = "cacheElements (p\<lparr>isInitialized := True\<rparr>)"
  let ?p1 = "snd (setupNavigation ?p0)"
  let ?p2 = "snd (setupThemeToggle ?p1)"
  let ?p3 = "snd (setupScrollEffects ?p2)"
  let ?p4 = "setupFormHandling ?p3"
  from assms have r: "init p = (Returned, hideLoadingScreen ?p4)"
    by (simp add: init_result [of p mm] Let_def)
  have l0: "linksOk ?p0" "navLinks ?p0 = navLinks p"
    using a by (simp_all add: linksOk_def cacheElements_def)
  have e0: "el_navToggle ?p0 = navToggle p" "el_navMenu ?p0 = navMenu p"
    "el_header ?p0 = header p" "el_themeToggle ?p0 = themeToggle p"
    "el_contactForm ?p0 = contactForm p" "el_loading ?p0 = loading p"
    by (simp_all add: cacheElements_def el_navToggle_def el_navMenu_def el_header_def
        el_themeToggle_def el_contactForm_def el_loading_def)
  have up: "k \<in> set (listeners (snd (init p)))" if "k \<in> set (listeners ?p2)" for k
    unfolding r using that
    by (simp add: hideLoadingScreen_fields setupFormHandling_keeps setupScrollEffects_frame)
  have up1: "k \<in> set (listeners (snd (init p)))" if "k \<in> set (listeners ?p1)" for k
    using that by (intro up setupThemeToggle_frame(5))
  have c1: "fst (init p) = Returned" by (simp add: r)
  have c2: "NavToggleClick \<in> set (listeners (snd (init p)))"
    if "navToggle p \<noteq> None \<and> navMenu p \<noteq> None"
    using that by (intro up1 setupNavigation_listeners(1) [OF l0(1)]) (simp add: e0)
  have c3: "NavLinkClick i \<in> set (listeners (snd (init p)))"
    if "i < length (navLinks p) \<and> navLinks p ! i = Some h \<and> startsWith h (str ''#'')" for i h
    using that by (intro up1 setupNavigation_listeners(2) [OF l0(1), of i h]) (simp_all add: l0)
  have c4: "WindowScroll \<in> set (listeners (snd (init p)))" if "header p \<noteq> None"
    using that by (intro up1 setupNavigation_listeners(3) [OF l0(1)]) (simp add: e0)
  have c5: "ThemeToggleClick \<in> set (listeners (snd (init p))) \<and>
        dataTheme (snd (init p)) = Some (initialTheme p)" if "themeToggle p"
  proof
    from that have "el_themeToggle ?p1" by (simp add: setupNavigation_frame e0)
    then show "ThemeToggleClick \<in> set (listeners (snd (init p)))"
      by (intro up setupThemeToggle_frame(6))
    from a that show "dataTheme (snd (init p)) = Some (initialTheme p)"
      by (simp add: init_fields(1))
  qed
  have f3: "el_contactForm ?p3 = contactForm p" "el_loading ?p4 = loading p"
    by (simp_all add: setupFormHandling_frame setupScrollEffects_frame setupThemeToggle_frame
          setupNavigation_frame e0)
  have c6: "FormSubmit \<in> set (listeners (snd (init p))) \<and>
        (\<forall>i. i < length (controls f) \<and> listensTo (controls f ! i) \<longrightarrow>
           ControlBlur i \<in> set (listeners (snd (init p))) \<and>
           ControlInput i \<in> set (listeners (snd (init p))))" if "contactForm p = Some f" for f
  proof -
    from that f3 have "el_contactForm ?p3 = Some f" by simp
    from setupFormHandling_listeners [OF this] show ?thesis
      unfolding r by (simp add: hideLoadingScreen_fields)
  qed
  have c7: "HideLoading \<in> set (timers (snd (init p)))" if "loading p \<noteq> None"
    unfolding r using that f3 by (simp add: hideLoadingScreen_fields)
  have c8: "animateElements (snd (init p)) = map hideForReveal (animateElements p)"
    if "\<not> mm (str ''(prefers-reduced-motion: reduce)'')"
  proof -
    have m2: "matchMedia ?p2 = Some mm"
      using a by (simp add: setupThemeToggle_frame setupNavigation_frame cacheElements_def)
    have a2: "animateElements ?p2 = animateElements p"
      by (simp add: setupThemeToggle_frame setupNavigation_frame cacheElements_def)
    have "intersectionObserver ?p2 = intersectionObserver p"
      by (simp add: setupThemeToggle_frame setupNavigation_frame cacheElements_def)
    with assms(4) have o2: "mm (str ''(prefers-reduced-motion: reduce)'') \<or> intersectionObserver ?p2"
      by simp
    from that show ?thesis
      unfolding r
      by (simp add: hideLoadingScreen_fields setupFormHandling_frame
            setupScrollEffects_result [OF m2 o2] a2)
  qed
  from c1 c2 c3 c4 c5 c6 c7 c8 show ?thesis
    by blast
qed

text \<open>
  Claim C8 fails on the code. On a page with the theme toggle, the contact form and the
  loading overlay, initialisation throws and leaves the features that come later
  without their set-up: with a navigation link that has no \<^verbatim>\<open>href\<close> it throws in
  \<^verbatim>\<open>setupNavigation\<close>, and neither the theme nor the form nor the dismissal of the
  overlay is set up; in a browser without \<^verbatim>\<open>window.matchMedia\<close>, or without
  \<^verbatim>\<open>IntersectionObserver\<close>, it throws in \<^verbatim>\<open>setupScrollEffects\<close>, after the theme has
  been applied, and neither the form nor the dismissal of the overlay is set up.
\<close>

theorem init_aborts_at_failing_inputs:
  "themeToggle featurePage \<and> contactForm featurePage \<noteq> None \<and> loading featurePage \<noteq> None \<and>
   fst (init noHrefPage) = Threw TypeError \<and>
   ThemeToggleClick \<notin> set (listeners (snd (init noHrefPage))) \<and>
   dataTheme (snd (init noHrefPage)) = None \<and>
   FormSubmit \<notin> set (listeners (snd (init noHrefPage))) \<and>
   HideLoading \<notin> set (timers (snd (init noHrefPage))) \<and>
   fst (init noMatchMediaPage) = Threw TypeError \<and>
   ThemeToggleClick \<in> set (listeners (snd (init noMatchMediaPage))) \<and>
   FormSubmit \<notin> set (listeners (snd (init noMatchMediaPage))) \<and>
   HideLoading \<notin> set (timers (snd (init noMatchMediaPage))) \<and>
   fst (init noObserverPage) = Threw ReferenceError \<and>
   ThemeToggleClick \<in> set (listeners (snd (init noObserverPage))) \<and>
   FormSubmit \<notin> set (listeners (snd (init noObserverPage))) \<and>
   HideLoading \<notin> set (timers (snd (init noObserverPage)))"
proof -
  note defs = init_def andThen_def cacheElements_def setupNavigation_def Let_def
    el_navToggle_def el_navMenu_def el_header_def el_themeToggle_def addListener_def
    setupThemeToggle_def setTheme_def setupScrollEffects_def featurePage_def blankPage_def
  have 1: "init noHrefPage =
      (Threw TypeError, noHrefPage\<lparr>isInitialized := True, cached := True\<rparr>)"
    by (simp add: noHrefPage_def defs)
  have 2: "fst (init noMatchMediaPage) = Threw TypeError"
    "listeners (snd (init noMatchMediaPage)) = [ThemeToggleClick]"
    "timers (snd (init noMatchMediaPage)) = []"
    by (simp_all add: noMatchMediaPage_def defs)
  have 3: "fst (init noObserverPage) = Threw ReferenceError"
    "listeners (snd (init noObserverPage)) = [ThemeToggleClick]"
    "timers (snd (init noObserverPage)) = []"
    by (simp_all add: noObserverPage_def defs)
  have 4: "themeToggle featurePage \<and> contactForm featurePage \<noteq> None \<and> loading featurePage \<noteq> None"
    by (simp add: featurePage_def blankPage_def)
  have 5: "listeners noHrefPage = []" "timers noHrefPage = []" "dataTheme noHrefPage = None"
    by (simp_all add: noHrefPage_def featurePage_def blankPage_def)
  show ?thesis
    unfolding 1 2 3 using 4 5 by simp
qed

end
